theory Spec2Isabelle
  imports Complex_Main "HOL-Library.Sublist" "HOL-Library.Multiset"
begin

section \<open>JavaScript values and string primitives used by the engine\<close>

text \<open>
  The engine is JavaScript. Numbers that the modelled code only ever uses as array
  indices, counts and pixel coordinates are integers here (\<open>nat\<close> or \<open>int\<close>),
  which is what the doubles of the engine hold as long as the values stay below
  \<open>2 ^ 53\<close> in size; floating-point rounding is not part of the model. A string is the
  list of its code units, all below 256. A thrown exception, and a call that never
  returns, are values of \<open>js_error\<close>. The limits of an engine on the length of a
  string and on the depth of the call stack are not part of the model.
\<close>

datatype js_error =
    TypeError          \<comment> \<open>property access or call on \<open>undefined\<close>\<close>
  | RangeError         \<comment> \<open>unbounded recursion: the call stack overflows\<close>
  | Error string       \<comment> \<open>\<open>throw new Error(msg)\<close>\<close>
  | NoResult           \<comment> \<open>the loop is still running when the fuel is spent\<close>
  | Unmodelled         \<comment> \<open>an input the model does not cover\<close>

text \<open>
  Values stored in a library: \<open>undefined\<close>, booleans, numbers, strings, a
  \<open>Uint8ClampedArray\<close> (\<open>Sprite\<close>) and plain objects, whose own properties are kept
  in insertion order.
\<close>

datatype jsval =
    Undefined
  | JBool bool
  | JNum int
  | JStr string
  | Sprite "nat list"
  | Obj "(string \<times> jsval) list"

fun truthy :: "jsval \<Rightarrow> bool" where
  "truthy Undefined = False"
| "truthy (JBool b) = b"
| "truthy (JNum n) = (n \<noteq> 0)"
| "truthy (JStr s) = (s \<noteq> [])"
| "truthy (Sprite bs) = True"
| "truthy (Obj kvs) = True"

definition is_digit :: "char \<Rightarrow> bool" where
  "is_digit c = (c \<in> set ''0123456789'')"

definition digit_val :: "char \<Rightarrow> nat" where
  "digit_val c = length (takeWhile (\<lambda>x. x \<noteq> c) ''0123456789'')"

definition digit_char :: "nat \<Rightarrow> char" where
  "digit_char d = ''0123456789'' ! d"

text \<open>\<open>String(n)\<close> for a natural number: its decimal digits.\<close>

fun js_String :: "nat \<Rightarrow> string" where
  "js_String n = (if n < 10 then [digit_char n] else js_String (n div 10) @ [digit_char (n mod 10)])"

declare js_String.simps [simp del]

text \<open>The value of a string of decimal digits, most significant digit first.\<close>

definition digits_val :: "string \<Rightarrow> nat" where
  "digits_val s = foldl (\<lambda>acc c. 10 * acc + digit_val c) 0 s"

text \<open>
  \<open>Number(s)\<close>, on the strings the decoder meets in well-formed encodings: the empty
  string is \<open>0\<close>, a string of decimal digits is its value, as long as that is at most
  \<open>2 ^ 53\<close>: a greater one is rounded to a double. Every other literal (signs,
  fractions, exponents, hexadecimal, surrounding white space, \<open>NaN\<close>, a greater value)
  is outside the model and reported as such by the callers.
\<close>

definition js_Number :: "string \<Rightarrow> nat option" where
  "js_Number s = (if list_all is_digit s \<and> int (digits_val s) \<le> 2 ^ 53 then Some (digits_val s) else None)"

text \<open>
  An array index as a property name: the canonical decimal form of a natural number
  (no leading zero).
\<close>

definition canonical_index :: "string \<Rightarrow> nat option" where
  "canonical_index k =
     (if k \<noteq> [] \<and> list_all is_digit k \<and> (hd k = CHR ''0'' \<longrightarrow> length k = 1)
      then Some (digits_val k) else None)"

text \<open>
  The own properties of a value other than \<open>undefined\<close>, as
  \<open>Object.prototype.hasOwnProperty\<close> answers: an object has its keys, a typed array its
  indices, a string its indices and \<open>length\<close>; numbers and booleans have none.
\<close>

fun has_own :: "jsval \<Rightarrow> string \<Rightarrow> bool" where
  "has_own (Obj kvs) k = (k \<in> set (map fst kvs))"
| "has_own (Sprite bs) k = (case canonical_index k of Some i \<Rightarrow> i < length bs | None \<Rightarrow> False)"
| "has_own (JStr s) k =
     (k = ''length'' \<or> (case canonical_index k of Some i \<Rightarrow> i < length s | None \<Rightarrow> False))"
| "has_own _ k = False"

text \<open>\<open>v[k]\<close>, which is \<open>undefined\<close> where \<open>v\<close> has no such property.\<close>

fun get_prop :: "jsval \<Rightarrow> string \<Rightarrow> jsval" where
  "get_prop (Obj kvs) k = (case map_of kvs k of Some v \<Rightarrow> v | None \<Rightarrow> Undefined)"
| "get_prop (Sprite bs) k =
     (case canonical_index k of
        Some i \<Rightarrow> (if i < length bs then JNum (int (bs ! i)) else Undefined)
      | None \<Rightarrow> Undefined)"
| "get_prop (JStr s) k =
     (if k = ''length'' then JNum (int (length s))
      else case canonical_index k of
        Some i \<Rightarrow> (if i < length s then JStr [s ! i] else Undefined)
      | None \<Rightarrow> Undefined)"
| "get_prop _ k = Undefined"

text \<open>\<open>o[k] = v\<close> on an object: an existing key keeps its place, a new one is appended.\<close>

fun obj_set :: "(string \<times> jsval) list \<Rightarrow> string \<Rightarrow> jsval \<Rightarrow> (string \<times> jsval) list" where
  "obj_set [] k v = [(k, v)]"
| "obj_set ((k', v') # kvs) k v = (if k' = k then (k, v) # kvs else (k', v') # obj_set kvs k v)"

text \<open>
  The object whose first assignment is \<open>o[k] = v\<close> and whose later assignments build
  \<open>rest\<close>: a later assignment to \<open>k\<close> keeps the place and replaces the value.
\<close>

definition obj_set_first :: "string \<Rightarrow> jsval \<Rightarrow> (string \<times> jsval) list \<Rightarrow> (string \<times> jsval) list" where
  "obj_set_first k v rest =
     (case map_of rest k of
        None \<Rightarrow> (k, v) # rest
      | Some v' \<Rightarrow> (k, v') # filter (\<lambda>kv. fst kv \<noteq> k) rest)"

text \<open>
  \<open>s.replace(pat, "")\<close> with a string pattern: the first occurrence of \<open>pat\<close> is
  deleted, later ones stay.
\<close>

fun js_replace_first :: "string \<Rightarrow> string \<Rightarrow> string" where
  "js_replace_first pat [] = []"
| "js_replace_first pat (c # cs) =
     (if prefix pat (c # cs) then drop (length pat) (c # cs) else c # js_replace_first pat cs)"

text \<open>
  The code units below 256 that \<open>\s\<close> matches: tab, line feed, vertical tab, form
  feed, carriage return, space and the no-break space.
\<close>

definition is_space :: "char \<Rightarrow> bool" where
  "is_space c = (c \<in> set [CHR '' '', CHR 0x09, CHR 0x0A, CHR 0x0B, CHR 0x0C, CHR 0x0D, CHR 0xA0])"

text \<open>
  \<open>s.split(/\s+/g)\<close>: the pieces between maximal runs of white space; a leading or
  trailing run leaves an empty piece, and the empty string splits into one empty piece.
\<close>

fun split_ws_aux :: "bool \<Rightarrow> string \<Rightarrow> string \<Rightarrow> string list" where
  "split_ws_aux inws cur [] = [rev cur]"
| "split_ws_aux inws cur (c # cs) =
     (if is_space c
      then (if inws then split_ws_aux True [] cs else rev cur # split_ws_aux True [] cs)
      else split_ws_aux False (c # cur) cs)"

definition split_ws :: "string \<Rightarrow> string list" where
  "split_ws s = split_ws_aux False [] s"

section \<open>StringFilr: lookup of the deepest matching library entry\<close>

record string_filr =
  library :: jsval
  normal :: string                    \<comment> \<open>\<open>[]\<close> when no normal class is configured\<close>
  cache :: "string \<rightharpoonup> jsval"       \<comment> \<open>the own properties of the object \<open>cache\<close>\<close>

text \<open>
  \<open>current.hasOwnProperty\<close> cannot be called on \<open>undefined\<close>, and on an object with a
  member of that name the member is what is called: no value of a library is a function,
  so the call throws.
\<close>

definition no_hasOwnProperty :: "jsval \<Rightarrow> bool" where
  "no_hasOwnProperty current = (current = Undefined \<or> has_own current ''hasOwnProperty'')"

text \<open>
  The loop of \<open>followClass\<close>: the first key that is an own property of \<open>current\<close>,
  together with the keys left after \<open>keys.splice(i, 1)\<close>.
\<close>

fun match_key :: "jsval \<Rightarrow> string list \<Rightarrow> (string \<times> string list) option" where
  "match_key current [] = None"
| "match_key current (k # ks) =
     (if has_own current k then Some (k, ks)
      else map_option (\<lambda>(k', ks'). (k', k # ks')) (match_key current ks))"

text \<open>
  A measure that every property access decreases, except the one access that returns
  the value itself (index \<open>0\<close> of a one-character string).
\<close>

fun rank :: "jsval \<Rightarrow> nat" where
  "rank (Obj kvs) = Suc (sum_list (map (\<lambda>kv. rank (snd kv)) kvs))"
| "rank (JStr s) = Suc (length s)"
| "rank (Sprite bs) = 1"
| "rank _ = 0"

lemma match_key_length:
  "match_key current keys = Some (k, keys') \<Longrightarrow> length keys' < length keys"
  by (induction keys arbitrary: keys') (auto split: if_splits)

lemma rank_map_of:
  "map_of kvs k = Some v \<Longrightarrow> rank v \<le> sum_list (map (\<lambda>kv. rank (snd kv)) kvs)"
  by (induction kvs) (auto split: if_splits)

lemma rank_get_prop:
  "has_own current k \<Longrightarrow> get_prop current k \<noteq> current \<Longrightarrow> rank (get_prop current k) < rank current"
proof (cases current)
  case (Obj kvs)
  assume "has_own current k"
  with Obj have "map_of kvs k \<noteq> None"
    by (simp add: map_of_eq_None_iff)
  then obtain v where v: "map_of kvs k = Some v"
    by blast
  with Obj rank_map_of [OF v] show ?thesis by simp
next
  case (JStr s)
  assume own: "has_own current k" and ne: "get_prop current k \<noteq> current"
  show ?thesis
  proof (cases "k = ''length''")
    case True
    with JStr show ?thesis by simp
  next
    case False
    with own JStr obtain i where i: "canonical_index k = Some i" "i < length s"
      by (auto split: option.splits)
    have "length s \<noteq> 1"
    proof
      assume l: "length s = 1"
      then obtain c where "s = [c]" by (cases s) auto
      with i False JStr ne show False by simp
    qed
    with i False JStr show ?thesis by simp
  qed
qed (auto split: option.splits)

text \<open>
  \<open>followClass(keys, current)\<close>. With keys left, the loop calls
  \<open>current.hasOwnProperty\<close> at once. A call whose recursive call would have the same
  arguments (the normal class names index \<open>0\<close> of a one-character string) recurses
  without end in the source: that is the \<open>RangeError\<close>.
\<close>

function followClass :: "string \<Rightarrow> string list \<Rightarrow> jsval \<Rightarrow> js_error + jsval" where
  "followClass nrm keys current =
     (if keys = [] then Inr current
      else if no_hasOwnProperty current then Inl TypeError
      else case match_key current keys of
          Some (k, keys') \<Rightarrow> followClass nrm keys' (get_prop current k)
        | None \<Rightarrow>
            (if nrm \<noteq> [] \<and> has_own current nrm
             then (if get_prop current nrm = current then Inl RangeError
                   else followClass nrm keys (get_prop current nrm))
             else Inr current))"
  by pat_completeness auto
termination
  by (relation "measures [\<lambda>(nrm, keys, current). length keys, \<lambda>(nrm, keys, current). rank current]")
     (auto simp: match_key_length rank_get_prop)

declare followClass.simps [simp del]

text \<open>The key that is looked up: \<open>keyRaw.replace(this.normal, "")\<close> when a normal class is set.\<close>

definition normalize :: "string \<Rightarrow> string \<Rightarrow> string" where
  "normalize nrm keyRaw = (if nrm \<noteq> [] then js_replace_first nrm keyRaw else keyRaw)"

text \<open>
  The cache is a plain object. \<open>this.cache.hasOwnProperty(key)\<close> calls the member of
  that name: once a result is stored under the key \<open>hasOwnProperty\<close>, the call throws.
\<close>

definition cache_hasOwnProperty :: "(string \<rightharpoonup> jsval) \<Rightarrow> string \<Rightarrow> js_error + bool" where
  "cache_hasOwnProperty c key =
     (if c ''hasOwnProperty'' \<noteq> None then Inl TypeError else Inr (c key \<noteq> None))"

text \<open>
  \<open>this.cache[key] = v\<close>. The key \<open>__proto__\<close> names the prototype: the assignment
  stores no own property; it does nothing for a \<open>v\<close> that is no object, and for an
  object it replaces the prototype of the cache, which is outside the model.
\<close>

definition cache_assign :: "(string \<rightharpoonup> jsval) \<Rightarrow> string \<Rightarrow> jsval \<Rightarrow> js_error + (string \<rightharpoonup> jsval)" where
  "cache_assign c key v =
     (if key = ''__proto__''
      then (case v of Obj kvs \<Rightarrow> Inl Unmodelled | Sprite bs \<Rightarrow> Inl Unmodelled | _ \<Rightarrow> Inr c)
      else Inr (c(key \<mapsto> v)))"

text \<open>
  \<open>StringFilr.get(keyRaw)\<close>: a cached result for the normalised key is returned as it
  is; otherwise the library is searched and the result stored under the raw key, then
  under the normalised key. An exception of the search leaves the cache as it was.
\<close>

definition get :: "string_filr \<Rightarrow> string \<Rightarrow> js_error + (jsval \<times> string_filr)" where
  "get f keyRaw =
     (let key = normalize (normal f) keyRaw in
      case cache_hasOwnProperty (cache f) key of
        Inl e \<Rightarrow> Inl e
      | Inr cached \<Rightarrow>
          if cached then Inr ((case cache f key of Some v \<Rightarrow> v | None \<Rightarrow> Undefined), f)
          else (case followClass (normal f) (split_ws key) (library f) of
                  Inl e \<Rightarrow> Inl e
                | Inr result \<Rightarrow>
                    (case cache_assign (cache f) keyRaw result of
                       Inl e \<Rightarrow> Inl e
                     | Inr c1 \<Rightarrow>
                         (case cache_assign c1 key result of
                            Inl e \<Rightarrow> Inl e
                          | Inr c2 \<Rightarrow> Inr (result, f\<lparr>cache := c2\<rparr>)))))"

text \<open>\<open>StringFilr.clearCached(key)\<close> deletes the entry of the normalised key only.\<close>

definition clearCached :: "string_filr \<Rightarrow> string \<Rightarrow> string_filr" where
  "clearCached f key = f\<lparr>cache := (cache f)(normalize (normal f) key := None)\<rparr>"


text \<open>Successive calls of \<open>get\<close> on one StringFilr, each seeing the cache the last one left.\<close>

fun get_all :: "string_filr \<Rightarrow> string list \<Rightarrow> js_error + (jsval list \<times> string_filr)" where
  "get_all f [] = Inr ([], f)"
| "get_all f (k # ks) =
     (case get f k of
        Inl e \<Rightarrow> Inl e
      | Inr (r, f') \<Rightarrow> (case get_all f' ks of Inl e \<Rightarrow> Inl e | Inr (rs, f'') \<Rightarrow> Inr (r # rs, f'')))"


text \<open>A key that the cache stores as an own property other than \<open>hasOwnProperty\<close>.\<close>

definition storable :: "string \<Rightarrow> bool" where
  "storable k = (k \<noteq> ''hasOwnProperty'' \<and> k \<noteq> ''__proto__'')"

text \<open>
  A lookup is unambiguous when, at every node the descent visits, the remaining keys
  that name a child of the node are all the same key.
\<close>

function unambiguous :: "string \<Rightarrow> string list \<Rightarrow> jsval \<Rightarrow> bool" where
  "unambiguous nrm keys current =
     (if keys = [] \<or> no_hasOwnProperty current then True
      else case match_key current keys of
          Some (k, keys') \<Rightarrow>
            list_all (\<lambda>k'. has_own current k' \<longrightarrow> k' = k) keys \<and>
            unambiguous nrm keys' (get_prop current k)
        | None \<Rightarrow>
            (if nrm \<noteq> [] \<and> has_own current nrm \<and> get_prop current nrm \<noteq> current
             then unambiguous nrm keys (get_prop current nrm)
             else True))"
  by pat_completeness auto
termination
  by (relation "measures [\<lambda>(nrm, keys, current). length keys, \<lambda>(nrm, keys, current). rank current]")
     (auto simp: match_key_length rank_get_prop)

declare unambiguous.simps [simp del]


text \<open>Test libraries.\<close>

definition filr_order :: string_filr where
  "filr_order = \<lparr>library = Obj [(''a'', Obj [(''b'', Sprite [255, 0, 0, 255])]), (''b'', Sprite [0, 0, 0, 0])],
                 normal = ''normal'', cache = Map.empty\<rparr>"

definition filr_plain :: string_filr where
  "filr_plain = \<lparr>library = Obj [(''a'', Obj [(''b'', Sprite [255, 0, 0, 255])]), (''c'', Sprite [0, 0, 0, 0])],
                 normal = ''normal'', cache = Map.empty\<rparr>"



subsection \<open>Properties of the lookup\<close>

lemmas filr_eval = get_def normalize_def split_ws_def followClass.simps is_space_def
  canonical_index_def is_digit_def Let_def cache_hasOwnProperty_def cache_assign_def
  no_hasOwnProperty_def

lemma match_key_find:
  "match_key current ks =
     (case find (has_own current) ks of None \<Rightarrow> None | Some k \<Rightarrow> Some (k, remove1 k ks))"
proof (induction ks)
  case Nil
  then show ?case by simp
next
  case (Cons k ks)
  show ?case
  proof (cases "has_own current k")
    case True
    then show ?thesis by simp
  next
    case False
    show ?thesis
    proof (cases "find (has_own current) ks")
      case None
      with False Cons show ?thesis by simp
    next
      case (Some k')
      then have "has_own current k'" by (auto simp: find_Some_iff)
      with False have "k \<noteq> k'" by auto
      with False Some Cons show ?thesis by simp
    qed
  qed
qed

lemma find_unique_perm:
  assumes "find P xs = Some k" and "list_all (\<lambda>k'. P k' \<longrightarrow> k' = k) xs" and "mset xs = mset ys"
  shows "find P ys = Some k"
proof -
  from assms(1) have k: "k \<in> set xs" "P k" by (auto simp: find_Some_iff)
  from assms(3) have s: "set xs = set ys" by (rule mset_eq_setD)
  with k have "find P ys \<noteq> None" by (auto simp: find_None_iff)
  then obtain k2 where k2: "find P ys = Some k2" by blast
  then have "k2 \<in> set ys" "P k2" by (auto simp: find_Some_iff)
  with s assms(2) have "k2 = k" by (auto simp: list_all_iff)
  with k2 show ?thesis by simp
qed

lemma find_None_perm:
  assumes "find P xs = None" and "mset xs = mset ys"
  shows "find P ys = None"
  using assms mset_eq_setD [OF assms(2)] by (auto simp: find_None_iff)

lemma followClass_perm:
  "mset keys1 = mset keys2 \<Longrightarrow> unambiguous nrm keys1 current \<Longrightarrow>
   followClass nrm keys1 current = followClass nrm keys2 current"
proof (induction nrm keys1 current arbitrary: keys2 rule: followClass.induct)
  case (1 nrm keys current)
  show ?case
  proof (cases "keys = [] \<or> no_hasOwnProperty current")
    case True
    with "1.prems" show ?thesis
      by (auto simp: followClass.simps [of nrm keys current] followClass.simps [of nrm keys2 current])
  next
    case False
    with "1.prems" have ne2: "keys2 \<noteq> []" by auto
    show ?thesis
    proof (cases "find (has_own current) keys")
      case None
      with "1.prems" have n2: "find (has_own current) keys2 = None" by (auto intro: find_None_perm)
      show ?thesis
      proof (cases "nrm \<noteq> [] \<and> has_own current nrm \<and> get_prop current nrm \<noteq> current")
        case True
        with False None "1.prems" have u: "unambiguous nrm keys (get_prop current nrm)"
          by (subst (asm) unambiguous.simps) (simp add: match_key_find)
        have "followClass nrm keys (get_prop current nrm) = followClass nrm keys2 (get_prop current nrm)"
          by (rule "1.IH"(1)) (use False None True "1.prems"(1) u in \<open>simp_all add: match_key_find\<close>)
        with False None n2 ne2 True show ?thesis
          by (simp add: followClass.simps [of nrm keys current] followClass.simps [of nrm keys2 current] match_key_find)
      next
        case nf: False
        with False None n2 ne2 show ?thesis
          by (auto simp: followClass.simps [of nrm keys current] followClass.simps [of nrm keys2 current] match_key_find)
      qed
    next
      case (Some k)
      with False "1.prems" have u: "list_all (\<lambda>k'. has_own current k' \<longrightarrow> k' = k) keys"
        and u': "unambiguous nrm (remove1 k keys) (get_prop current k)"
        by (subst (asm) unambiguous.simps, simp add: match_key_find)+
      from find_unique_perm [OF Some u "1.prems"(1)] have s2: "find (has_own current) keys2 = Some k" .
      from "1.prems"(1) have m: "mset (remove1 k keys) = mset (remove1 k keys2)" by simp
      have "followClass nrm (remove1 k keys) (get_prop current k) = followClass nrm (remove1 k keys2) (get_prop current k)"
        by (rule "1.IH"(2)) (use False Some m u' in \<open>simp_all add: match_key_find\<close>)
      with False Some s2 ne2 show ?thesis
        by (simp add: followClass.simps [of nrm keys current] followClass.simps [of nrm keys2 current] match_key_find)
    qed
  qed
qed





lemma get_cached:
  "cache f ''hasOwnProperty'' = None \<Longrightarrow> cache f (normalize (normal f) keyRaw) = Some v \<Longrightarrow>
   get f keyRaw = Inr (v, f)"
  by (simp add: get_def cache_hasOwnProperty_def Let_def)

lemma get_miss:
  "cache f ''hasOwnProperty'' = None \<Longrightarrow> cache f (normalize (normal f) keyRaw) = None \<Longrightarrow>
   get f keyRaw =
     (case followClass (normal f) (split_ws (normalize (normal f) keyRaw)) (library f) of
        Inl e \<Rightarrow> Inl e
      | Inr result \<Rightarrow>
          (case cache_assign (cache f) keyRaw result of
             Inl e \<Rightarrow> Inl e
           | Inr c1 \<Rightarrow>
               (case cache_assign c1 (normalize (normal f) keyRaw) result of
                  Inl e \<Rightarrow> Inl e
                | Inr c2 \<Rightarrow> Inr (result, f\<lparr>cache := c2\<rparr>))))"
  by (simp add: get_def cache_hasOwnProperty_def Let_def)

lemma cache_assign_storable: "storable k \<Longrightarrow> cache_assign c k v = Inr (c(k \<mapsto> v))"
  by (simp add: cache_assign_def storable_def)




text \<open>
  Claim C7, as amended. The claim says that \<open>get\<close> returns the same result for any
  two keys whose tokens are permutations of each other. \<open>followClass\<close> descends on
  the first token, in key order, that names a child, so two orders can take different
  branches. What holds: on a StringFilr with an empty cache, if the token lists of the
  two normalised keys are permutations of each other and the lookup of the first is
  unambiguous, both keys return the same result (or throw the same exception), asked
  separately or one after the other. The keys, raw and normalised, are other than
  \<open>hasOwnProperty\<close> and \<open>__proto__\<close>, which the cache object cannot hold as entries.
\<close>

theorem get_order_independent:
  assumes perm: "mset (split_ws (normalize (normal f) k1)) = mset (split_ws (normalize (normal f) k2))"
    and unamb: "unambiguous (normal f) (split_ws (normalize (normal f) k1)) (library f)"
    and fresh: "cache f = Map.empty"
    and keys: "list_all storable [k1, normalize (normal f) k1, k2, normalize (normal f) k2]"
  shows "map_sum id fst (get f k2) = map_sum id fst (get f k1) \<and>
         map_sum id fst (get_all f [k1, k2]) = map_sum id (\<lambda>r. [r, r]) (map_sum id fst (get f k1))"
proof -
  let ?key1 = "normalize (normal f) k1" and ?key2 = "normalize (normal f) k2"
  have eq: "followClass (normal f) (split_ws ?key1) (library f) = followClass (normal f) (split_ws ?key2) (library f)"
    using perm unamb by (rule followClass_perm)
  from fresh have h: "cache f ''hasOwnProperty'' = None" and m1: "cache f ?key1 = None" and m2: "cache f ?key2 = None"
    by simp_all
  note g1 = get_miss [OF h m1] and g2 = get_miss [OF h m2]
  from keys have st: "storable k1" "storable ?key1" "storable k2" "storable ?key2" by simp_all
  show ?thesis
  proof (cases "followClass (normal f) (split_ws ?key1) (library f)")
    case (Inl e)
    with eq have "followClass (normal f) (split_ws ?key2) (library f) = Inl e" by simp
    with Inl show ?thesis by (simp add: g1 g2)
  next
    case (Inr r)
    define f1 where "f1 = f\<lparr>cache := (cache f)(k1 \<mapsto> r, ?key1 \<mapsto> r)\<rparr>"
    from Inr eq have r2: "followClass (normal f) (split_ws ?key2) (library f) = Inr r" by simp
    from Inr st have first: "get f k1 = Inr (r, f1)"
      by (simp add: g1 cache_assign_storable f1_def)
    from r2 st have second: "map_sum id fst (get f k2) = Inr r"
      by (simp add: g2 cache_assign_storable)
    have n1: "normal f1 = normal f" and l1: "library f1 = library f" by (simp_all add: f1_def)
    from st fresh have h1: "cache f1 ''hasOwnProperty'' = None"
      by (auto simp add: f1_def storable_def)
    have "\<exists>f2. get f1 k2 = Inr (r, f2)"
    proof (cases "cache f1 (normalize (normal f1) k2)")
      case None
      from r2 st show ?thesis
        by (simp add: get_miss [OF h1 None] n1 l1 cache_assign_storable)
    next
      case (Some v)
      then have "v = r" by (auto simp: f1_def fresh n1 split: if_splits)
      with Some get_cached [OF h1 Some] show ?thesis by simp
    qed
    then obtain f2 where "get f1 k2 = Inr (r, f2)" by blast
    with first second show ?thesis by simp
  qed
qed

theorem get_order_independent_witness:
  "map_sum id fst (get filr_plain ''b a'') = Inr (Sprite [255, 0, 0, 255]) \<and>
   map_sum id fst (get_all filr_plain [''a b'', ''b a'']) = Inr [Sprite [255, 0, 0, 255], Sprite [255, 0, 0, 255]]"
proof -
  have perm: "mset (split_ws (normalize (normal filr_plain) ''a b'')) = mset (split_ws (normalize (normal filr_plain) ''b a''))"
    by (simp add: filr_plain_def filr_eval)
  have unamb: "unambiguous (normal filr_plain) (split_ws (normalize (normal filr_plain) ''a b'')) (library filr_plain)"
    by (simp add: filr_plain_def filr_eval unambiguous.simps)
  have fresh: "cache filr_plain = Map.empty"
    by (simp add: filr_plain_def)
  have keys: "list_all storable [''a b'', normalize (normal filr_plain) ''a b'', ''b a'', normalize (normal filr_plain) ''b a'']"
    by (simp add: filr_plain_def normalize_def storable_def)
  have "map_sum id fst (get filr_plain ''a b'') = Inr (Sprite [255, 0, 0, 255])"
    by (simp add: filr_plain_def filr_eval)
  with get_order_independent [OF perm unamb fresh keys] show ?thesis by simp
qed

text \<open>
  The claim C7 as stated fails: in the library \<open>{a: {b: red}, b: black}\<close> the keys
  \<open>a b\<close> and \<open>b a\<close> have the same tokens and return different sprites.
\<close>

theorem get_order_counterexample:
  "mset (split_ws ''a b'') = mset (split_ws ''b a'') \<and>
   map_sum id fst (get filr_order ''a b'') = Inr (Sprite [255, 0, 0, 255]) \<and>
   map_sum id fst (get filr_order ''b a'') = Inr (Sprite [0, 0, 0, 0])"
  by (simp add: filr_order_def filr_eval)






section \<open>PixelRendr: the sprite codec\<close>

subsection \<open>String helpers\<close>

text \<open>\<open>s.indexOf(c, from)\<close> for a one-character pattern: \<open>-1\<close> when there is none.\<close>

definition js_indexOf :: "string \<Rightarrow> char \<Rightarrow> nat \<Rightarrow> int" where
  "js_indexOf s c from =
     (let t = drop from s
      in if c \<in> set t then int (from + length (takeWhile (\<lambda>x. x \<noteq> c) t)) else - 1)"

text \<open>
  \<open>s.slice(a, b)\<close>: a negative bound counts from the end, both bounds are clamped to
  the string, and an empty range gives the empty string.
\<close>

definition js_slice :: "string \<Rightarrow> int \<Rightarrow> int \<Rightarrow> string" where
  "js_slice s a b =
     (let n = int (length s);
          from = (if a < 0 then max (n + a) 0 else min a n);
          to = (if b < 0 then max (n + b) 0 else min b n)
      in take (nat (to - from)) (drop (nat from) s))"

text \<open>\<open>s.split(sep)\<close> for a one-character separator; the empty string gives one empty piece.\<close>

fun js_split :: "char \<Rightarrow> string \<Rightarrow> string list" where
  "js_split sep [] = [[]]"
| "js_split sep (c # cs) =
     (if c = sep then [] # js_split sep cs
      else case js_split sep cs of t # ts \<Rightarrow> (c # t) # ts | [] \<Rightarrow> [[c]])"

text \<open>\<open>xs.join(sep)\<close> on strings.\<close>

fun js_join :: "string \<Rightarrow> string list \<Rightarrow> string" where
  "js_join sep [] = []"
| "js_join sep [x] = x"
| "js_join sep (x # y # ys) = x @ sep @ js_join sep (y # ys)"

text \<open>
  \<open>s.match(/.{1,k}/g)\<close>: the string cut into pieces of \<open>k\<close> characters, the last one
  shorter when the length is no multiple of \<open>k\<close> (strings here hold no line
  terminators, which \<open>.\<close> would skip).
\<close>

function chunks :: "nat \<Rightarrow> string \<Rightarrow> string list" where
  "chunks k s = (if k = 0 \<or> s = [] then [] else take k s # chunks k (drop k s))"
  by pat_completeness auto
termination
  by (relation "measure (\<lambda>(k, s). length s)") auto

declare chunks.simps [simp del]

subsection \<open>Digits and palettes\<close>

text \<open>A palette entry is a list of channel values; the default palette is a list of entries.\<close>

type_synonym palette = "nat list list"

text \<open>\<open>String(entry)\<close> of an array of numbers: its elements joined by commas.\<close>

definition rgba_String :: "nat list \<Rightarrow> string" where
  "rgba_String entry = js_join '','' (map js_String entry)"

text \<open>\<open>stringOf(str, times)\<close>.\<close>

definition stringOf :: "string \<Rightarrow> nat \<Rightarrow> string" where
  "stringOf str n = concat (replicate n str)"

text \<open>
  \<open>makeDigit(num, size, prefix)\<close>; \<open>num\<close> is given by its string form, which is all the
  source uses of it (\<open>undefined\<close> is \<open>''undefined''\<close>).
\<close>

definition makeDigit :: "string \<Rightarrow> nat \<Rightarrow> string \<Rightarrow> string" where
  "makeDigit num sz pre = stringOf pre (sz - length num) @ num"

text \<open>The number of decimal digits of a natural number.\<close>

definition decimal_digits :: "nat \<Rightarrow> nat" where
  "decimal_digits n = length (js_String n)"

text \<open>
  \<open>getDigitSize(palette)\<close> is \<open>Math.floor(Math.log(palette.length) / Math.LN10) + 1\<close>,
  computed in floating point. For a palette of 1 to 999 entries the quotient is on the same
  side of every whole number as the exact logarithm (it is exactly \<open>1\<close> and \<open>2\<close> at 10
  and 100), and the result is the number of decimal digits of the length. From 1000 entries
  on the quotient can fall below the whole number, as \<open>2.9999999999999996\<close> at 1000, and
  for an empty palette the result is \<open>-Infinity\<close>: both are outside the model.
\<close>

definition getDigitSize :: "'a list \<Rightarrow> js_error + nat" where
  "getDigitSize pal =
     (if pal \<noteq> [] \<and> length pal < 1000 then Inr (decimal_digits (length pal)) else Inl Unmodelled)"

text \<open>
  A palette reference is the object \<open>output\<close> the source fills by assignment, read
  here as a map; a later assignment to the same key wins.
\<close>

definition make_reference :: "(string \<times> string) list \<Rightarrow> (string \<rightharpoonup> string)" where
  "make_reference kvs = map_of (rev kvs)"

text \<open>
  \<open>getPaletteReference(palette)\<close>, on the string forms of the palette's entries: digit
  \<open>i\<close> is mapped to entry \<open>i\<close>, both padded to the palette's own digit size.
\<close>

definition getPaletteReference :: "string list \<Rightarrow> js_error + (string \<rightharpoonup> string)" where
  "getPaletteReference pal =
     (case getDigitSize pal of
        Inl e \<Rightarrow> Inl e
      | Inr digitsize \<Rightarrow>
          Inr (make_reference
                 (map (\<lambda>(i, entry). (makeDigit (js_String i) digitsize ''0'', makeDigit entry digitsize ''0''))
                      (enumerate 0 pal))))"

text \<open>\<open>getPaletteReferenceStarting(palette)\<close>: digit \<open>i\<close> is mapped to itself.\<close>

definition getPaletteReferenceStarting :: "nat \<Rightarrow> 'a list \<Rightarrow> (string \<rightharpoonup> string)" where
  "getPaletteReferenceStarting digitsizeDefault pal =
     make_reference
       (map (\<lambda>(i, entry). (makeDigit (js_String i) digitsizeDefault ''0'',
                            makeDigit (js_String i) digitsizeDefault ''0''))
            (enumerate 0 pal))"

text \<open>\<open>String(paletteref[k])\<close>: a missing key reads as \<open>undefined\<close>.\<close>

definition ref_String :: "(string \<rightharpoonup> string) \<Rightarrow> string \<Rightarrow> string" where
  "ref_String paletteref k = (case paletteref k of Some v \<Rightarrow> v | None \<Rightarrow> ''undefined'')"

subsection \<open>The decode pipeline\<close>

record unravel_state =
  paletteref :: "string \<rightharpoonup> string"
  digitsize :: nat
  outstr :: string          \<comment> \<open>the source's \<open>output\<close>\<close>
  loc :: nat

text \<open>
  One turn of the \<open>while (loc < clength)\<close> loop of \<open>spriteUnravel\<close>, entered with
  \<open>loc < clength\<close>; the first argument is \<open>this.digitsizeDefault\<close>, which the
  constructor computes with \<open>getDigitSize(this.paletteDefault)\<close>. In the \<open>x\<close> branch the repetition count is \<open>Number(...)\<close> of the
  text up to the comma. In the \<open>p\<close> branch \<open>nixloc\<close> is \<open>colors.indexOf("]")\<close>, searched
  from the start of the string, and the default reference is rebuilt with
  \<open>getPaletteReference(this.paletteDefault)\<close>, whose entries are colours.
\<close>

definition unravel_step :: "nat \<Rightarrow> palette \<Rightarrow> string \<Rightarrow> unravel_state \<Rightarrow> js_error + unravel_state" where
  "unravel_step digitsizeDefault pal colors st =
     (let l = loc st; ds = digitsize st
      in if colors ! l = CHR ''x'' then
           (let nixloc = js_indexOf colors CHR '','' (l + 1);
                current = makeDigit (ref_String (paletteref st)
                              (js_slice colors (int (l + 1)) (int (l + 1 + ds)))) digitsizeDefault ''0''
            in case js_Number (js_slice colors (int (l + 1 + ds)) nixloc) of
                 None \<Rightarrow> Inl Unmodelled
               | Some rep \<Rightarrow>
                   Inr (st\<lparr>outstr := outstr st @ concat (replicate rep current),
                           loc := nat (nixloc + 1)\<rparr>))
         else if colors ! l = CHR ''p'' then
           (if l + 1 < length colors \<and> colors ! (l + 1) = CHR ''[''
            then (let nixloc = js_indexOf colors CHR '']'' 0
                  in case getPaletteReference
                            (js_split CHR '','' (js_slice colors (int (l + 2)) nixloc)) of
                       Inl e \<Rightarrow> Inl e
                     | Inr reference \<Rightarrow>
                         Inr (st\<lparr>paletteref := reference,
                                 loc := nat (nixloc + 1),
                                 digitsize := 1\<rparr>))
            else (case getPaletteReference (map rgba_String pal) of
                    Inl e \<Rightarrow> Inl e
                  | Inr reference \<Rightarrow>
                      Inr (st\<lparr>paletteref := reference,
                              digitsize := digitsizeDefault,
                              loc := l + 1\<rparr>)))
         else
           Inr (st\<lparr>outstr := outstr st @
                        makeDigit (ref_String (paletteref st)
                           (js_slice colors (int l) (int (l + ds)))) digitsizeDefault ''0'',
                   loc := l + ds\<rparr>))"

text \<open>
  The loop, with fuel: one unit for each turn. \<open>NoResult\<close> says that the loop was
  still running when the fuel ran out.
\<close>

fun unravel_loop :: "nat \<Rightarrow> nat \<Rightarrow> palette \<Rightarrow> string \<Rightarrow> unravel_state \<Rightarrow> js_error + string" where
  "unravel_loop fuel digitsizeDefault pal colors st =
     (if loc st < length colors
      then (case fuel of
              0 \<Rightarrow> Inl NoResult
            | Suc fuel' \<Rightarrow>
                (case unravel_step digitsizeDefault pal colors st of
                   Inl e \<Rightarrow> Inl e
                 | Inr st' \<Rightarrow> unravel_loop fuel' digitsizeDefault pal colors st'))
      else Inr (outstr st))"

declare unravel_loop.simps [simp del]

text \<open>
  \<open>spriteUnravel(colors)\<close>, for the PixelRendr of the default palette \<open>pal\<close>, whose
  \<open>digitsizeDefault\<close> is \<open>getDigitSize(pal)\<close>.
\<close>

definition spriteUnravel :: "nat \<Rightarrow> palette \<Rightarrow> string \<Rightarrow> js_error + string" where
  "spriteUnravel fuel pal colors =
     (case getDigitSize pal of
        Inl e \<Rightarrow> Inl e
      | Inr digitsizeDefault \<Rightarrow>
          unravel_loop fuel digitsizeDefault pal colors
            \<lparr>paletteref = getPaletteReferenceStarting digitsizeDefault pal,
             digitsize = digitsizeDefault, outstr = [], loc = 0\<rparr>)"

text \<open>\<open>arrayReplace(array, removed, inserted)\<close>.\<close>

definition arrayReplace :: "string list \<Rightarrow> string \<Rightarrow> string \<Rightarrow> string list" where
  "arrayReplace array removed inserted = map (\<lambda>x. if x = removed then inserted else x) array"

text \<open>
  \<open>spriteApplyFilter(colors, key, attributes)\<close>, with \<open>this.digitsizeDefault\<close> as first
  argument (it is the size of the groups of \<open>this.digitsplit\<close>). The filter of the attributes is
  \<open>[name, mapping]\<close>, the mapping from digit strings to digit strings in the order of
  its keys; \<open>None\<close> stands for attributes without a filter. \<open>colors.match\<close> is \<open>null\<close>
  for the empty string, and \<open>null.join\<close> throws.
\<close>

definition spriteApplyFilter :: "nat \<Rightarrow> (string \<times> (string \<times> string) list) option \<Rightarrow> string
    \<Rightarrow> js_error + string" where
  "spriteApplyFilter digitsizeDefault flt colors =
     (case flt of
        None \<Rightarrow> Inr colors
      | Some (filterName, mapping) \<Rightarrow>
          if filterName = [] then Inr colors
          else if filterName = ''palette'' then
            (if colors = [] then Inl TypeError
             else Inr (concat (fold (\<lambda>(i, v) arr. arrayReplace arr i v) mapping
                                 (chunks digitsizeDefault colors))))
          else Inr colors)"

text \<open>\<open>spriteExpand(colors)\<close>: every group of \<open>digitsizeDefault\<close> digits \<open>scale\<close> times.\<close>

definition spriteExpand :: "nat \<Rightarrow> nat \<Rightarrow> string \<Rightarrow> string" where
  "spriteExpand digitsizeDefault scale colors =
     concat (map (\<lambda>current. concat (replicate scale current)) (chunks digitsizeDefault colors))"

text \<open>
  The four bytes \<open>spriteGetArray\<close> writes for one palette entry: a missing channel is
  \<open>undefined\<close> and stored as \<open>0\<close>, and the array clamps at \<open>255\<close>.
\<close>

definition entry_bytes :: "nat list \<Rightarrow> nat list" where
  "entry_bytes reference = map (min 255) (take 4 (reference @ replicate 4 0))"

text \<open>
  The loop of \<open>spriteGetArray\<close> over the digit groups: \<open>paletteDefault[Number(group)]\<close>
  is \<open>undefined\<close> for an index past the palette, and reading a channel of it throws.
\<close>

fun getArray_loop :: "palette \<Rightarrow> string list \<Rightarrow> js_error + nat list" where
  "getArray_loop pal [] = Inr []"
| "getArray_loop pal (g # gs) =
     (case js_Number g of
        None \<Rightarrow> Inl Unmodelled
      | Some i \<Rightarrow>
          if i < length pal
          then (case getArray_loop pal gs of
                  Inl e \<Rightarrow> Inl e
                | Inr bytes \<Rightarrow> Inr (entry_bytes (pal ! i) @ bytes))
          else Inl TypeError)"

text \<open>
  \<open>spriteGetArray(colors)\<close>. The output array has \<open>clength / digitsize * 4\<close> elements,
  cut to a whole number; a write past its end is dropped.
\<close>

definition spriteGetArray :: "nat \<Rightarrow> palette \<Rightarrow> string \<Rightarrow> js_error + nat list" where
  "spriteGetArray digitsizeDefault pal colors =
     (case getArray_loop pal (chunks digitsizeDefault colors) of
        Inl e \<Rightarrow> Inl e
      | Inr bytes \<Rightarrow> Inr (take (length colors * 4 div digitsizeDefault) bytes))"

text \<open>
  The pipeline of \<open>ProcessorBase\<close> on an encoding that is not yet cached:
  \<open>spriteUnravel\<close>, \<open>spriteApplyFilter\<close>, \<open>spriteExpand\<close>, \<open>spriteGetArray\<close>.
\<close>

definition ProcessorBase_process :: "nat \<Rightarrow> palette \<Rightarrow> nat
    \<Rightarrow> (string \<times> (string \<times> string) list) option \<Rightarrow> string \<Rightarrow> js_error + nat list" where
  "ProcessorBase_process fuel pal scale flt colors =
     (case getDigitSize pal of
        Inl e \<Rightarrow> Inl e
      | Inr digitsizeDefault \<Rightarrow>
          (case spriteUnravel fuel pal colors of
             Inl e \<Rightarrow> Inl e
           | Inr unravelled \<Rightarrow>
               (case spriteApplyFilter digitsizeDefault flt unravelled of
                  Inl e \<Rightarrow> Inl e
                | Inr filtered \<Rightarrow>
                    spriteGetArray digitsizeDefault pal (spriteExpand digitsizeDefault scale filtered))))"

text \<open>The palette of the specification's decoding scenario.\<close>

definition palette3 :: palette where
  "palette3 = [[0, 0, 0, 0], [255, 0, 0, 255], [0, 255, 0, 255]]"


subsection \<open>The encode pipeline\<close>

text \<open>
  \<open>arrayDifference(a, b)\<close>: the sum over the indices of \<open>a\<close> of
  \<open>Math.abs(a[i] - b[i]) | 0\<close>; a channel missing in \<open>b\<close> makes the term \<open>NaN | 0\<close>,
  which is \<open>0\<close>.
\<close>

definition arrayDifference :: "nat list \<Rightarrow> nat list \<Rightarrow> nat" where
  "arrayDifference a b =
     sum_list (map (\<lambda>i. if i < length b then nat \<bar>int (a ! i) - int (b ! i)\<bar> else 0) [0..<length a])"

text \<open>
  The loop of \<open>getClosestInPalette\<close>, over the palette from its last index down, with
  \<open>best = (bestDifference, bestIndex)\<close>; \<open>None\<close> is the initial \<open>Infinity\<close>.
\<close>

fun closest_loop :: "(nat \<times> nat list) list \<Rightarrow> nat list \<Rightarrow> (nat \<times> nat) option \<Rightarrow> (nat \<times> nat) option" where
  "closest_loop [] rgba best = best"
| "closest_loop ((i, entry) # rest) rgba best =
     (let difference = arrayDifference entry rgba
      in closest_loop rest rgba
           (case best of
              None \<Rightarrow> Some (difference, i)
            | Some (bestDifference, bestIndex) \<Rightarrow>
                if difference < bestDifference then Some (difference, i) else best))"

definition getClosestInPalette :: "palette \<Rightarrow> nat list \<Rightarrow> nat option" where
  "getClosestInPalette pal rgba = map_option snd (closest_loop (rev (enumerate 0 pal)) rgba None)"

text \<open>
  \<open>imageGetPixels(data)\<close>: the palette index of every pixel. \<open>new Array(data.length / 4)\<close>
  throws for a length that is no multiple of four. With an empty default palette the
  index of a pixel is \<open>undefined\<close>; that case is outside the model.
\<close>

fun pixels_of :: "palette \<Rightarrow> nat list \<Rightarrow> nat option list" where
  "pixels_of pal (r # g # b # a # data) = getClosestInPalette pal [r, g, b, a] # pixels_of pal data"
| "pixels_of pal data = []"

definition imageGetPixels :: "palette \<Rightarrow> nat list \<Rightarrow> js_error + nat list" where
  "imageGetPixels pal data =
     (if length data mod 4 \<noteq> 0 then Inl RangeError
      else case those (pixels_of pal data) of
             None \<Rightarrow> Inl Unmodelled
           | Some pixels \<Rightarrow> Inr pixels)"

text \<open>The position of a key in a list of distinct keys: \<open>getValueIndices(array)[key]\<close>.\<close>

definition getValueIndex :: "'a list \<Rightarrow> 'a \<Rightarrow> nat" where
  "getValueIndex array key = length (takeWhile (\<lambda>x. x \<noteq> key) array)"

text \<open>
  \<open>imageMapPalette(information)\<close>: the working palette is \<open>Object.keys(occurences)\<close>, the
  palette indices that occur, in ascending order (they are integer keys), and every
  pixel becomes its position in the working palette. Result: palette, numbers, digit
  size.
\<close>

definition imageMapPalette :: "nat list \<Rightarrow> js_error + (string list \<times> nat list \<times> nat)" where
  "imageMapPalette pixels =
     (let keys = sort (remdups pixels);
          working = map js_String keys
      in case getDigitSize working of
           Inl e \<Rightarrow> Inl e
         | Inr digitsz \<Rightarrow> Inr (working, map (getValueIndex keys) pixels, digitsz))"

text \<open>
  \<open>makeSizedDigit(size, num)\<close> calls \<open>this.makeDigit\<close>. The first argument here is the
  receiver of the call: \<open>None\<close> when the function runs with no PixelRendr as \<open>this\<close>,
  where the lookup of \<open>makeDigit\<close> and its call throw.
\<close>

definition makeSizedDigit :: "'self option \<Rightarrow> nat \<Rightarrow> string \<Rightarrow> js_error + string" where
  "makeSizedDigit self sz num =
     (case self of None \<Rightarrow> Inl TypeError | Some _ \<Rightarrow> Inr (makeDigit num sz ''0''))"

text \<open>\<open>xs.map(f)\<close> for an \<open>f\<close> that may throw: the first exception ends the call.\<close>

fun map_throw :: "('a \<Rightarrow> js_error + 'b) \<Rightarrow> 'a list \<Rightarrow> js_error + 'b list" where
  "map_throw f [] = Inr []"
| "map_throw f (x # xs) =
     (case f x of
        Inl e \<Rightarrow> Inl e
      | Inr y \<Rightarrow> (case map_throw f xs of Inl e \<Rightarrow> Inl e | Inr ys \<Rightarrow> Inr (y # ys)))"

text \<open>
  The loop of \<open>imageCombinePixels\<close> over the numbers: a run longer than the threshold
  is written as \<open>x digit count ,\<close>, a shorter one digit by digit.
\<close>

function combine_runs :: "nat \<Rightarrow> nat \<Rightarrow> nat list \<Rightarrow> string" where
  "combine_runs digitsz threshold [] = []"
| "combine_runs digitsz threshold (current # rest) =
     (let run = Suc (length (takeWhile (\<lambda>x. x = current) rest));
          digit = makeDigit (js_String current) digitsz ''0''
      in (if run > threshold then ''x'' @ digit @ js_String run @ '',''
          else concat (replicate run digit))
         @ combine_runs digitsz threshold (dropWhile (\<lambda>x. x = current) rest))"
  by pat_completeness auto
termination
  by (relation "measure (\<lambda>(d, t, numbers). length numbers)")
     (auto simp: length_dropWhile_le less_Suc_eq_le)

text \<open>
  \<open>imageCombinePixels(information)\<close>. The header is built by
  \<open>palette.map(this.makeSizedDigit.bind(undefined, digitsize))\<close>: \<open>makeSizedDigit\<close> runs
  with \<open>this\<close> bound to \<open>undefined\<close>. The threshold is
  \<open>max(3, round(4 / digitsize))\<close>.
\<close>

definition imageCombinePixels :: "string list \<times> nat list \<times> nat \<Rightarrow> js_error + string" where
  "imageCombinePixels information =
     (case information of (working, numbers, digitsz) \<Rightarrow>
        let threshold = max 3 ((8 + digitsz) div (2 * digitsz))
        in case map_throw (makeSizedDigit (None :: unit option) digitsz) working of
             Inl e \<Rightarrow> Inl e
           | Inr digits \<Rightarrow>
               Inr (''p['' @ js_join '','' digits @ '']'' @ combine_runs digitsz threshold numbers))"

text \<open>
  \<open>encode(image)\<close>, from the pixel data of the image on: \<open>imageGetPixels\<close>,
  \<open>imageMapPalette\<close>, \<open>imageCombinePixels\<close>.
\<close>

definition encode :: "palette \<Rightarrow> nat list \<Rightarrow> js_error + string" where
  "encode pal data =
     (case imageGetPixels pal data of
        Inl e \<Rightarrow> Inl e
      | Inr pixels \<Rightarrow>
          (case imageMapPalette pixels of
             Inl e \<Rightarrow> Inl e
           | Inr information \<Rightarrow> imageCombinePixels information))"

subsection \<open>Parsing the library and fetching sprites\<close>

text \<open>
  A raw library entry: an encoded sprite, a post-processing command (kept as it is and
  evaluated after the parse), or a nested object.
\<close>

datatype raw = RawString string | RawCommand "string list" | RawObject "(string \<times> raw) list"

text \<open>
  The state that parsing threads through: the cache of \<open>ProcessorBase\<close> (results by
  path) and the posts collected so far (path, name, command).
\<close>

record parse_state =
  baseCache :: "string \<rightharpoonup> nat list"
  posts :: "(string \<times> string \<times> string list) list"

text \<open>
  \<open>ProcessorBase.process(data, key)\<close>: a result cached for the key is returned as it is;
  otherwise the pipeline runs without a filter and its result is cached.
\<close>

definition ProcessorBase_cached :: "nat \<Rightarrow> palette \<Rightarrow> nat \<Rightarrow> string \<Rightarrow> string \<Rightarrow> parse_state
    \<Rightarrow> js_error + (nat list \<times> parse_state)" where
  "ProcessorBase_cached fuel pal scl colors key ps =
     (case baseCache ps key of
        Some sprite \<Rightarrow> Inr (sprite, ps)
      | None \<Rightarrow>
          (case ProcessorBase_process fuel pal scl None colors of
             Inl e \<Rightarrow> Inl e
           | Inr sprite \<Rightarrow> Inr (sprite, ps\<lparr>baseCache := (baseCache ps)(key \<mapsto> sprite)\<rparr>)))"

text \<open>
  \<open>libraryParse(reference, path)\<close>, over the entries of \<open>reference\<close> in the order of
  \<open>for (i in reference)\<close>: a string is decoded, a command is pushed onto the posts and
  leaves no entry, anything else is parsed as a nested object.
\<close>

fun libraryParse :: "nat \<Rightarrow> palette \<Rightarrow> nat \<Rightarrow> (string \<times> raw) list \<Rightarrow> string \<Rightarrow> parse_state
    \<Rightarrow> js_error + ((string \<times> jsval) list \<times> parse_state)" where
  "libraryParse fuel pal scl [] path ps = Inr ([], ps)"
| "libraryParse fuel pal scl ((i, RawString colors) # reference) path ps =
     (case ProcessorBase_cached fuel pal scl colors (path @ '' '' @ i) ps of
        Inl e \<Rightarrow> Inl e
      | Inr (sprite, ps1) \<Rightarrow>
          (case libraryParse fuel pal scl reference path ps1 of
             Inl e \<Rightarrow> Inl e
           | Inr (setnew, ps2) \<Rightarrow> Inr (obj_set_first i (Sprite sprite) setnew, ps2)))"
| "libraryParse fuel pal scl ((i, RawCommand command) # reference) path ps =
     libraryParse fuel pal scl reference path
       (ps\<lparr>posts := posts ps @ [(path @ '' '' @ i, i, command)]\<rparr>)"
| "libraryParse fuel pal scl ((i, RawObject sub) # reference) path ps =
     (case libraryParse fuel pal scl sub (path @ '' '' @ i) ps of
        Inl e \<Rightarrow> Inl e
      | Inr (child, ps1) \<Rightarrow>
          (case libraryParse fuel pal scl reference path ps1 of
             Inl e \<Rightarrow> Inl e
           | Inr (setnew, ps2) \<Rightarrow> Inr (obj_set_first i (Obj child) setnew, ps2)))"

text \<open>The attributes \<open>decode\<close> reads: \<open>attributes[spriteWidth]\<close> and \<open>attributes[spriteHeight]\<close>.\<close>

record attributes =
  spriteWidth :: nat
  spriteHeight :: nat

text \<open>
  \<open>memcpyU8(source, destination, readloc, writeloc, writelength)\<close>: a read past the
  source is \<open>undefined\<close>, stored as \<open>0\<close>; a write past the destination is dropped.
\<close>

definition memcpyU8 :: "nat list \<Rightarrow> nat list \<Rightarrow> nat \<Rightarrow> nat \<Rightarrow> nat \<Rightarrow> nat list" where
  "memcpyU8 source destination readloc writeloc writelength =
     (if writelength = 0 \<or> length source \<le> readloc \<or> length destination \<le> writeloc
      then destination
      else map (\<lambda>p. if writeloc \<le> p \<and> p < writeloc + writelength
                     then (if readloc + (p - writeloc) < length source
                           then source ! (readloc + (p - writeloc)) else 0)
                     else destination ! p)
               [0..<length destination])"

text \<open>
  \<open>spriteRepeatRows(sprite, key, attributes)\<close>: in turn \<open>si\<close> of the outer and \<open>sj\<close> of
  the inner loop, \<open>readloc\<close> is \<open>si * rowsize\<close> and \<open>writeloc\<close> is
  \<open>(si * scale + sj) * rowsize\<close>.
\<close>

definition spriteRepeatRows :: "nat \<Rightarrow> nat list \<Rightarrow> attributes \<Rightarrow> nat list" where
  "spriteRepeatRows scl sprite attrs =
     (let rowsize = spriteWidth attrs * 4;
          heightscale = spriteHeight attrs * scl
      in fold (\<lambda>si parsed.
                 fold (\<lambda>sj parsed'. memcpyU8 sprite parsed' (si * rowsize) ((si * scl + sj) * rowsize) rowsize)
                      [0..<scl] parsed)
              [0..<heightscale] (replicate (length sprite * scl) 0))"

text \<open>\<open>sprite[i]\<close> for an integer index: \<open>undefined\<close>, stored as \<open>0\<close>, outside the array.\<close>

definition byte_at :: "nat list \<Rightarrow> int \<Rightarrow> nat" where
  "byte_at sprite i = (if 0 \<le> i \<and> i < int (length sprite) then sprite ! nat i else 0)"

text \<open>
  The three flips, each as the array its loops fill. The loops of the horizontal and
  of the vertical flip advance by \<open>rowsize\<close> and never end for a sprite that is not
  empty when the width is \<open>0\<close>.
\<close>

definition flipSpriteArrayHoriz :: "nat list \<Rightarrow> attributes \<Rightarrow> js_error + nat list" where
  "flipSpriteArrayHoriz sprite attrs =
     (let rowsize = spriteWidth attrs * 4
      in if rowsize = 0 \<and> sprite \<noteq> [] then Inl NoResult
         else Inr (map (\<lambda>p. let i = (p div rowsize) * rowsize; j = (p - i) div 4; k = (p - i) mod 4
                             in byte_at sprite (int (i + rowsize) - 4 - 4 * int j + int k))
                       [0..<length sprite]))"

definition flipSpriteArrayVert :: "nat list \<Rightarrow> attributes \<Rightarrow> js_error + nat list" where
  "flipSpriteArrayVert sprite attrs =
     (let rowsize = spriteWidth attrs * 4
      in if rowsize = 0 \<and> sprite \<noteq> [] then Inl NoResult
         else Inr (map (\<lambda>p. byte_at sprite
                               (int (length sprite) - int rowsize - int ((p div rowsize) * rowsize)
                                  + int (p mod rowsize)))
                       [0..<length sprite]))"

definition flipSpriteArrayBoth :: "nat list \<Rightarrow> nat list" where
  "flipSpriteArrayBoth sprite =
     map (\<lambda>p. byte_at sprite (int (length sprite) - 4 - 4 * int (p div 4) + int (p mod 4)))
         [0..<length sprite]"

text \<open>The part of a PixelRendr that \<open>decode\<close> uses.\<close>

record pixel_rendr =
  BaseFiler :: string_filr
  dimsCache :: "string \<rightharpoonup> nat list"     \<comment> \<open>the cache of \<open>ProcessorDims\<close>\<close>
  rendr_scale :: nat
  flipVert :: string
  flipHoriz :: string

text \<open>\<open>spriteFlipDimensions(sprite, key, attributes)\<close>; \<open>key.indexOf(s) !== -1\<close> is \<open>sublist s key\<close>.\<close>

definition spriteFlipDimensions :: "pixel_rendr \<Rightarrow> nat list \<Rightarrow> string \<Rightarrow> attributes \<Rightarrow> js_error + nat list" where
  "spriteFlipDimensions pr sprite key attrs =
     (if sublist (flipHoriz pr) key then
        (if sublist (flipVert pr) key then Inr (flipSpriteArrayBoth sprite)
         else flipSpriteArrayHoriz sprite attrs)
      else if sublist (flipVert pr) key then flipSpriteArrayVert sprite attrs
      else Inr sprite)"

text \<open>
  \<open>ProcessorDims.process(sprite, key, attributes)\<close>: a result cached for the key is
  returned whatever the attributes; otherwise rows are repeated, the sprite is flipped
  and the result is cached.
\<close>

definition ProcessorDims_process :: "pixel_rendr \<Rightarrow> nat list \<Rightarrow> string \<Rightarrow> attributes
    \<Rightarrow> js_error + (nat list \<times> pixel_rendr)" where
  "ProcessorDims_process pr sprite key attrs =
     (case dimsCache pr key of
        Some cached \<Rightarrow> Inr (cached, pr)
      | None \<Rightarrow>
          (case spriteFlipDimensions pr (spriteRepeatRows (rendr_scale pr) sprite attrs) key attrs of
             Inl e \<Rightarrow> Inl e
           | Inr data \<Rightarrow> Inr (data, pr\<lparr>dimsCache := (dimsCache pr)(key \<mapsto> data)\<rparr>)))"

text \<open>
  The loop of \<open>processSpriteMultiple\<close> over the members of \<open>sprite.sprites\<close>: a member
  that is a \<open>Uint8ClampedArray\<close> is replaced by its processed form, under the key
  \<open>key + " " + i\<close>.
\<close>

fun process_parts :: "pixel_rendr \<Rightarrow> string \<Rightarrow> attributes \<Rightarrow> (string \<times> jsval) list
    \<Rightarrow> js_error + ((string \<times> jsval) list \<times> pixel_rendr)" where
  "process_parts pr key attrs [] = Inr ([], pr)"
| "process_parts pr key attrs ((i, Sprite bytes) # parts) =
     (case ProcessorDims_process pr bytes (key @ '' '' @ i) attrs of
        Inl e \<Rightarrow> Inl e
      | Inr (bytes', pr1) \<Rightarrow>
          (case process_parts pr1 key attrs parts of
             Inl e \<Rightarrow> Inl e
           | Inr (parts', pr2) \<Rightarrow> Inr ((i, Sprite bytes') # parts', pr2)))"
| "process_parts pr key attrs ((i, v) # parts) =
     (case process_parts pr key attrs parts of
        Inl e \<Rightarrow> Inl e
      | Inr (parts', pr1) \<Rightarrow> Inr ((i, v) # parts', pr1))"

text \<open>
  \<open>processSpriteMultiple(sprite, key, attributes)\<close>. Only an object has members to
  enumerate that can be typed arrays; \<open>for (i in undefined)\<close> runs no turn. The source
  updates the object in place; the model returns the updated object.
\<close>

definition processSpriteMultiple :: "pixel_rendr \<Rightarrow> (string \<times> jsval) list \<Rightarrow> string \<Rightarrow> attributes
    \<Rightarrow> js_error + (jsval \<times> pixel_rendr)" where
  "processSpriteMultiple pr members key attrs =
     (case get_prop (Obj members) ''sprites'' of
        Obj parts \<Rightarrow>
          (case process_parts pr key attrs parts of
             Inl e \<Rightarrow> Inl e
           | Inr (parts', pr1) \<Rightarrow>
               Inr (Obj (obj_set (obj_set members ''sprites'' (Obj parts')) ''processed'' (JBool True)), pr1))
      | _ \<Rightarrow> Inr (Obj (obj_set members ''processed'' (JBool True)), pr))"

text \<open>
  \<open>decode(key, attributes)\<close>. Only an object can have a truthy \<open>multiple\<close> member. The
  object that \<open>processSpriteMultiple\<close> updates in place is returned updated; the copies
  of it that the model keeps inside the library and the cache of the BaseFiler stay as
  they were.
\<close>

definition decode :: "pixel_rendr \<Rightarrow> string \<Rightarrow> attributes \<Rightarrow> js_error + (jsval \<times> pixel_rendr)" where
  "decode pr key attrs =
     (case get (BaseFiler pr) key of
        Inl e \<Rightarrow> Inl e
      | Inr (sprite, filer) \<Rightarrow>
          let pr1 = pr\<lparr>BaseFiler := filer\<rparr>
          in if \<not> truthy sprite then Inl (Error (''No raw sprite found for '' @ key @ ''.''))
             else if truthy (get_prop sprite ''multiple'') then
               (if \<not> truthy (get_prop sprite ''processed'')
                then (case sprite of
                        Obj members \<Rightarrow> processSpriteMultiple pr1 members key attrs
                      | _ \<Rightarrow> Inr (sprite, pr1))
                else Inr (sprite, pr1))
             else
               (case sprite of
                  Sprite bytes \<Rightarrow>
                    (case ProcessorDims_process pr1 bytes key attrs of
                       Inl e \<Rightarrow> Inl e
                     | Inr (bytes', pr2) \<Rightarrow> Inr (Sprite bytes', pr2))
                | _ \<Rightarrow> Inl (Error (''No single raw sprite found for: '' @ [CHR 0x27] @ key @ [CHR 0x27]))))"

text \<open>
  What the specification calls a decoded sprite: a \<open>Uint8ClampedArray\<close>, or a
  SpriteMultiple, the object \<open>evaluatePostMultiple\<close> builds with \<open>multiple: true\<close>.
\<close>

fun is_decoded_sprite :: "jsval \<Rightarrow> bool" where
  "is_decoded_sprite (Sprite bytes) = True"
| "is_decoded_sprite (Obj members) = (map_of members ''multiple'' = Some (JBool True))"
| "is_decoded_sprite _ = False"

section \<open>QuadsKeepr: the grid of quadrants\<close>

text \<open>
  Quadrants and Things are objects that the grid and the Things share by reference. A
  quadrant lives in a store and is named by its index there; a Thing is named by an
  identifier. Bounds are whole numbers (\<open>| 0\<close> makes the sizes, the start and every shift
  of the grid whole), and the coordinates of Things are taken whole as well.
\<close>

text \<open>\<open>xs[i]\<close> on an array whose elements may be \<open>undefined\<close>.\<close>

definition nth_opt :: "'a option list \<Rightarrow> nat \<Rightarrow> 'a option" where
  "nth_opt xs i = (if i < length xs then xs ! i else None)"

text \<open>\<open>xs[i] = v\<close>: an index past the end extends the array, leaving holes.\<close>

definition js_array_set :: "'a option list \<Rightarrow> nat \<Rightarrow> 'a \<Rightarrow> 'a option list" where
  "js_array_set xs i v =
     (if i < length xs then xs[i := Some v] else xs @ replicate (i - length xs) None @ [Some v])"

text \<open>\<open>x | 0\<close> on a whole number: the value modulo \<open>2^32\<close>, read as signed.\<close>

definition to_int32 :: "int \<Rightarrow> int" where
  "to_int32 x = (x + 2147483648) mod 4294967296 - 2147483648"

record quadrant =
  q_top :: int
  q_right :: int
  q_bottom :: int
  q_left :: int
  q_changed :: bool
  q_things :: "string \<rightharpoonup> nat option list"    \<comment> \<open>\<open>things[group]\<close>: Things by identifier\<close>
  q_numthings :: "string \<rightharpoonup> nat"

record container =
  c_left :: int
  c_top :: int
  c_quadrants :: "nat option list"          \<comment> \<open>quadrants by their index in the store\<close>

datatype notification =
    OnAdd string int int int int
  | OnRemove string int int int int

record quads_keepr =
  numRows :: int
  numCols :: int
  quadrantWidth :: int
  quadrantHeight :: int
  groupNames :: "string list"
  startLeft :: int
  startTop :: int
  keyOffsetX :: bool                        \<comment> \<open>whether \<open>keyOffsetX\<close> is configured\<close>
  keyOffsetY :: bool
  k_top :: int
  k_right :: int
  k_bottom :: int
  k_left :: int
  offsetX :: int
  offsetY :: int
  quadrantRows :: "container list"
  quadrantCols :: "container list"
  store :: "quadrant list"
  notifications :: "notification list"      \<comment> \<open>the calls of \<open>onAdd\<close> and \<open>onRemove\<close>, in order\<close>

record thing =
  t_id :: nat
  t_top :: int
  t_right :: int
  t_bottom :: int
  t_left :: int
  t_offsetX :: int
  t_offsetY :: int
  t_group :: string
  t_changed :: bool
  t_numquads :: nat
  t_quadrants :: "nat option list"

text \<open>The quadrant \<open>createQuadrant(left, top)\<close> makes.\<close>

definition new_quadrant :: "quads_keepr \<Rightarrow> int \<Rightarrow> int \<Rightarrow> quadrant" where
  "new_quadrant g lft tp =
     \<lparr>q_top = tp, q_right = lft + quadrantWidth g, q_bottom = tp + quadrantHeight g, q_left = lft,
      q_changed = True,
      q_things = map_of (map (\<lambda>name. (name, [])) (groupNames g)),
      q_numthings = map_of (map (\<lambda>name. (name, 0)) (groupNames g))\<rparr>"

text \<open>\<open>createQuadrantRow(left, top)\<close>: \<open>numCols\<close> new quadrants, from left to right.\<close>

definition createQuadrantRow :: "quads_keepr \<Rightarrow> int \<Rightarrow> int \<Rightarrow> container \<times> quads_keepr" where
  "createQuadrantRow g lft tp =
     (let n = nat (numCols g)
      in (\<lparr>c_left = lft, c_top = tp, c_quadrants = map (\<lambda>i. Some (length (store g) + i)) [0..<n]\<rparr>,
          g\<lparr>store := store g @ map (\<lambda>i. new_quadrant g (lft + int i * quadrantWidth g) tp) [0..<n]\<rparr>))"

text \<open>\<open>createQuadrantCol(left, top)\<close>: \<open>numRows\<close> new quadrants, from top to bottom.\<close>

definition createQuadrantCol :: "quads_keepr \<Rightarrow> int \<Rightarrow> int \<Rightarrow> container \<times> quads_keepr" where
  "createQuadrantCol g lft tp =
     (let n = nat (numRows g)
      in (\<lparr>c_left = lft, c_top = tp, c_quadrants = map (\<lambda>i. Some (length (store g) + i)) [0..<n]\<rparr>,
          g\<lparr>store := store g @ map (\<lambda>i. new_quadrant g lft (tp + int i * quadrantHeight g)) [0..<n]\<rparr>))"

text \<open>
  \<open>resetQuadrants()\<close>: the containers are made empty, then the quadrants are created
  row by row and pushed into the container of their row and of their column.
\<close>

definition resetQuadrants :: "quads_keepr \<Rightarrow> quads_keepr" where
  "resetQuadrants g =
     (let R = nat (numRows g); C = nat (numCols g); base = length (store g);
          right = startLeft g + quadrantWidth g * numCols g;
          bottom = startTop g + quadrantHeight g * numRows g
      in g\<lparr>k_top := startTop g, k_right := right, k_bottom := bottom, k_left := startLeft g,
           offsetX := 0, offsetY := 0,
           quadrantRows :=
             map (\<lambda>i. \<lparr>c_left = startLeft g, c_top = startTop g + int i * quadrantHeight g,
                        c_quadrants = map (\<lambda>j. Some (base + i * C + j)) [0..<C]\<rparr>) [0..<R],
           quadrantCols :=
             map (\<lambda>j. \<lparr>c_left = startLeft g + int j * quadrantWidth g, c_top = startTop g,
                        c_quadrants = map (\<lambda>i. Some (base + i * C + j)) [0..<R]\<rparr>) [0..<C],
           store := store g @
             concat (map (\<lambda>i. map (\<lambda>j. new_quadrant g (startLeft g + int j * quadrantWidth g)
                                                       (startTop g + int i * quadrantHeight g)) [0..<C])
                         [0..<R]),
           notifications := notifications g @ [OnAdd ''xInc'' (startTop g) right bottom (startLeft g)]\<rparr>)"

text \<open>
  The loop \<open>containers[i].quadrants.push(added.quadrants[i])\<close> over all containers, and
  its siblings with \<open>unshift\<close>, \<open>pop\<close> and \<open>shift\<close>.
\<close>

definition push_each :: "container \<Rightarrow> container list \<Rightarrow> container list" where
  "push_each added containers =
     map (\<lambda>(i, c). c\<lparr>c_quadrants := c_quadrants c @ [nth_opt (c_quadrants added) i]\<rparr>)
         (enumerate 0 containers)"

definition unshift_each :: "container \<Rightarrow> container list \<Rightarrow> container list" where
  "unshift_each added containers =
     map (\<lambda>(i, c). c\<lparr>c_quadrants := nth_opt (c_quadrants added) i # c_quadrants c\<rparr>)
         (enumerate 0 containers)"

definition pop_each :: "container list \<Rightarrow> container list" where
  "pop_each containers = map (\<lambda>c. c\<lparr>c_quadrants := butlast (c_quadrants c)\<rparr>) containers"

definition shift_each :: "container list \<Rightarrow> container list" where
  "shift_each containers = map (\<lambda>c. c\<lparr>c_quadrants := tl (c_quadrants c)\<rparr>) containers"

text \<open>A call of \<open>onAdd\<close> or \<open>onRemove\<close>, made when \<open>callUpdate\<close> is set.\<close>

definition notify :: "bool \<Rightarrow> notification \<Rightarrow> quads_keepr \<Rightarrow> quads_keepr" where
  "notify callUpdate n g = (if callUpdate then g\<lparr>notifications := notifications g @ [n]\<rparr> else g)"

definition pushQuadrantRow :: "bool \<Rightarrow> quads_keepr \<Rightarrow> quads_keepr" where
  "pushQuadrantRow callUpdate g =
     (case createQuadrantRow g (k_left g) (k_bottom g) of (row, g1) \<Rightarrow>
        let g2 = g1\<lparr>numRows := numRows g1 + 1,
                    quadrantRows := quadrantRows g1 @ [row],
                    quadrantCols := push_each row (quadrantCols g1),
                    k_bottom := k_bottom g1 + quadrantHeight g1\<rparr>
        in notify callUpdate
             (OnAdd ''yInc'' (k_bottom g2) (k_right g2) (k_bottom g2 - quadrantHeight g2) (k_left g2)) g2)"

definition pushQuadrantCol :: "bool \<Rightarrow> quads_keepr \<Rightarrow> quads_keepr" where
  "pushQuadrantCol callUpdate g =
     (case createQuadrantCol g (k_right g) (k_top g) of (col, g1) \<Rightarrow>
        let g2 = g1\<lparr>numCols := numCols g1 + 1,
                    quadrantCols := quadrantCols g1 @ [col],
                    quadrantRows := push_each col (quadrantRows g1),
                    k_right := k_right g1 + quadrantWidth g1\<rparr>
        in notify callUpdate
             (OnAdd ''xInc'' (k_top g2) (k_right g2 - offsetY g2) (k_bottom g2)
                (k_right g2 - quadrantWidth g2 - offsetY g2)) g2)"

definition popQuadrantRow :: "bool \<Rightarrow> quads_keepr \<Rightarrow> quads_keepr" where
  "popQuadrantRow callUpdate g =
     (let g1 = g\<lparr>quadrantCols := pop_each (quadrantCols g),
                 numRows := numRows g - 1,
                 quadrantRows := butlast (quadrantRows g)\<rparr>;
          g2 = notify callUpdate
                 (OnRemove ''yInc'' (k_bottom g1) (k_right g1) (k_bottom g1 - quadrantHeight g1) (k_left g1)) g1
      in g2\<lparr>k_bottom := k_bottom g2 - quadrantHeight g2\<rparr>)"

definition popQuadrantCol :: "bool \<Rightarrow> quads_keepr \<Rightarrow> quads_keepr" where
  "popQuadrantCol callUpdate g =
     (let g1 = g\<lparr>quadrantRows := pop_each (quadrantRows g),
                 numCols := numCols g - 1,
                 quadrantCols := butlast (quadrantCols g)\<rparr>;
          g2 = notify callUpdate
                 (OnRemove ''xDec'' (k_top g1) (k_right g1 - offsetY g1) (k_bottom g1)
                    (k_right g1 - quadrantWidth g1 - offsetY g1)) g1
      in g2\<lparr>k_right := k_right g2 - quadrantWidth g2\<rparr>)"

definition unshiftQuadrantRow :: "bool \<Rightarrow> quads_keepr \<Rightarrow> quads_keepr" where
  "unshiftQuadrantRow callUpdate g =
     (case createQuadrantRow g (k_left g) (k_top g - quadrantHeight g) of (row, g1) \<Rightarrow>
        let g2 = g1\<lparr>numRows := numRows g1 + 1,
                    quadrantRows := row # quadrantRows g1,
                    quadrantCols := unshift_each row (quadrantCols g1),
                    k_top := k_top g1 - quadrantHeight g1\<rparr>
        in notify callUpdate
             (OnAdd ''yInc'' (k_top g2) (k_right g2) (k_top g2 + quadrantHeight g2) (k_left g2)) g2)"

definition unshiftQuadrantCol :: "bool \<Rightarrow> quads_keepr \<Rightarrow> quads_keepr" where
  "unshiftQuadrantCol callUpdate g =
     (case createQuadrantCol g (k_left g - quadrantWidth g) (k_top g) of (col, g1) \<Rightarrow>
        let g2 = g1\<lparr>numCols := numCols g1 + 1,
                    quadrantCols := col # quadrantCols g1,
                    quadrantRows := unshift_each col (quadrantRows g1),
                    k_left := k_left g1 - quadrantWidth g1\<rparr>
        in notify callUpdate
             (OnAdd ''xInc'' (k_top g2) (k_left g2) (k_bottom g2) (k_left g2 + quadrantWidth g2)) g2)"

text \<open>
  \<open>shiftQuadrantRow\<close> and \<open>shiftQuadrantCol\<close> take the first quadrant out of every
  container of the other direction with \<open>shift()\<close>, and then remove a container of
  their own direction with \<open>pop()\<close>: the last one.
\<close>

definition shiftQuadrantRow :: "bool \<Rightarrow> quads_keepr \<Rightarrow> quads_keepr" where
  "shiftQuadrantRow callUpdate g =
     (let g1 = g\<lparr>quadrantCols := shift_each (quadrantCols g),
                 numRows := numRows g - 1,
                 quadrantRows := butlast (quadrantRows g)\<rparr>;
          g2 = notify callUpdate
                 (OnRemove ''yInc'' (k_top g1) (k_right g1) (k_top g1 + quadrantHeight g1) (k_left g1)) g1
      in g2\<lparr>k_top := k_top g2 + quadrantHeight g2\<rparr>)"

definition shiftQuadrantCol :: "bool \<Rightarrow> quads_keepr \<Rightarrow> quads_keepr" where
  "shiftQuadrantCol callUpdate g =
     (let g1 = g\<lparr>quadrantRows := shift_each (quadrantRows g),
                 numCols := numCols g - 1,
                 quadrantCols := butlast (quadrantCols g)\<rparr>;
          g2 = notify callUpdate
                 (OnRemove ''xInc'' (k_top g1) (k_left g1 + quadrantWidth g1) (k_bottom g1) (k_left g1)) g1
      in g2\<lparr>k_left := k_left g2 + quadrantWidth g2\<rparr>)"

text \<open>\<open>shiftQuadrant(quadrant, dx, dy)\<close>.\<close>

definition shiftQuadrant :: "quadrant \<Rightarrow> int \<Rightarrow> int \<Rightarrow> quadrant" where
  "shiftQuadrant q dx dy =
     q\<lparr>q_top := q_top q + dy, q_right := q_right q + dx, q_bottom := q_bottom q + dy,
       q_left := q_left q + dx, q_changed := True\<rparr>"

text \<open>An update of the quadrant behind a reference; a member of \<open>undefined\<close> cannot be read.\<close>

definition with_quadrant :: "nat option \<Rightarrow> (quadrant \<Rightarrow> quadrant) \<Rightarrow> quadrant list \<Rightarrow> js_error + quadrant list" where
  "with_quadrant ref f st =
     (case ref of
        None \<Rightarrow> Inl TypeError
      | Some i \<Rightarrow> if i < length st then Inr (st[i := f (st ! i)]) else Inl TypeError)"

text \<open>A loop whose body may throw.\<close>

fun fold_throw :: "('a \<Rightarrow> 's \<Rightarrow> js_error + 's) \<Rightarrow> 'a list \<Rightarrow> 's \<Rightarrow> js_error + 's" where
  "fold_throw f [] s = Inr s"
| "fold_throw f (x # xs) s = (case f x s of Inl e \<Rightarrow> Inl e | Inr s' \<Rightarrow> fold_throw f xs s')"

text \<open>
  The loop \<open>for (row = 0; row < numRows; row += 1)\<close> that moves the first \<open>n\<close>
  containers; \<open>containers[row]\<close> is \<open>undefined\<close> past the end of the array.
\<close>

definition shift_containers :: "int \<Rightarrow> int \<Rightarrow> int \<Rightarrow> container list \<Rightarrow> js_error + container list" where
  "shift_containers n dx dy cs =
     (if int (length cs) < n then Inl TypeError
      else Inr (map (\<lambda>c. c\<lparr>c_left := c_left c + dx, c_top := c_top c + dy\<rparr>) (take (nat n) cs)
                @ drop (nat n) cs))"

text \<open>\<open>this.quadrantRows[row].quadrants[col]\<close>.\<close>

definition cell_ref :: "quads_keepr \<Rightarrow> nat \<Rightarrow> nat \<Rightarrow> js_error + nat option" where
  "cell_ref g row col =
     (if row < length (quadrantRows g)
      then Inr (nth_opt (c_quadrants (quadrantRows g ! row)) col)
      else Inl TypeError)"

text \<open>The four loops of \<open>adjustOffsets\<close>. Each never ends when the quadrant size is not positive.\<close>

lemma notify_fields [simp]:
  "offsetX (notify b n g) = offsetX g" "offsetY (notify b n g) = offsetY g"
  "quadrantWidth (notify b n g) = quadrantWidth g" "quadrantHeight (notify b n g) = quadrantHeight g"
  by (simp_all add: notify_def)

lemma push_fields [simp]:
  "offsetX (pushQuadrantRow b g) = offsetX g" "offsetY (pushQuadrantRow b g) = offsetY g"
  "quadrantWidth (pushQuadrantRow b g) = quadrantWidth g" "quadrantHeight (pushQuadrantRow b g) = quadrantHeight g"
  "offsetX (pushQuadrantCol b g) = offsetX g" "offsetY (pushQuadrantCol b g) = offsetY g"
  "quadrantWidth (pushQuadrantCol b g) = quadrantWidth g" "quadrantHeight (pushQuadrantCol b g) = quadrantHeight g"
  by (simp_all add: pushQuadrantRow_def pushQuadrantCol_def createQuadrantRow_def createQuadrantCol_def Let_def)

lemma unshift_fields [simp]:
  "offsetX (unshiftQuadrantRow b g) = offsetX g" "offsetY (unshiftQuadrantRow b g) = offsetY g"
  "quadrantWidth (unshiftQuadrantRow b g) = quadrantWidth g" "quadrantHeight (unshiftQuadrantRow b g) = quadrantHeight g"
  "offsetX (unshiftQuadrantCol b g) = offsetX g" "offsetY (unshiftQuadrantCol b g) = offsetY g"
  "quadrantWidth (unshiftQuadrantCol b g) = quadrantWidth g" "quadrantHeight (unshiftQuadrantCol b g) = quadrantHeight g"
  by (simp_all add: unshiftQuadrantRow_def unshiftQuadrantCol_def createQuadrantRow_def createQuadrantCol_def Let_def)

lemma pop_fields [simp]:
  "offsetX (popQuadrantRow b g) = offsetX g" "offsetY (popQuadrantRow b g) = offsetY g"
  "quadrantWidth (popQuadrantRow b g) = quadrantWidth g" "quadrantHeight (popQuadrantRow b g) = quadrantHeight g"
  "offsetX (popQuadrantCol b g) = offsetX g" "offsetY (popQuadrantCol b g) = offsetY g"
  "quadrantWidth (popQuadrantCol b g) = quadrantWidth g" "quadrantHeight (popQuadrantCol b g) = quadrantHeight g"
  by (simp_all add: popQuadrantRow_def popQuadrantCol_def Let_def)

lemma shift_fields [simp]:
  "offsetX (shiftQuadrantRow b g) = offsetX g" "offsetY (shiftQuadrantRow b g) = offsetY g"
  "quadrantWidth (shiftQuadrantRow b g) = quadrantWidth g" "quadrantHeight (shiftQuadrantRow b g) = quadrantHeight g"
  "offsetX (shiftQuadrantCol b g) = offsetX g" "offsetY (shiftQuadrantCol b g) = offsetY g"
  "quadrantWidth (shiftQuadrantCol b g) = quadrantWidth g" "quadrantHeight (shiftQuadrantCol b g) = quadrantHeight g"
  by (simp_all add: shiftQuadrantRow_def shiftQuadrantCol_def Let_def)

function adjust_left :: "quads_keepr \<Rightarrow> js_error + quads_keepr" where
  "adjust_left g =
     (if - offsetX g > quadrantWidth g
      then (if quadrantWidth g \<le> 0 then Inl NoResult
            else (let g1 = pushQuadrantCol True (shiftQuadrantCol True g)
                  in adjust_left (g1\<lparr>offsetX := offsetX g1 + quadrantWidth g1\<rparr>)))
      else Inr g)"
  by pat_completeness auto
termination
  by (relation "measure (\<lambda>g. nat (- offsetX g))") auto

function adjust_right :: "quads_keepr \<Rightarrow> js_error + quads_keepr" where
  "adjust_right g =
     (if offsetX g > quadrantWidth g
      then (if quadrantWidth g \<le> 0 then Inl NoResult
            else (let g1 = unshiftQuadrantCol True (popQuadrantCol True g)
                  in adjust_right (g1\<lparr>offsetX := offsetX g1 - quadrantWidth g1\<rparr>)))
      else Inr g)"
  by pat_completeness auto
termination
  by (relation "measure (\<lambda>g. nat (offsetX g))") auto

text \<open>The loop for a negative vertical offset calls \<open>unshiftQuadrantRow\<close>, then \<open>pushQuadrantRow\<close>.\<close>

function adjust_up :: "quads_keepr \<Rightarrow> js_error + quads_keepr" where
  "adjust_up g =
     (if - offsetY g > quadrantHeight g
      then (if quadrantHeight g \<le> 0 then Inl NoResult
            else (let g1 = pushQuadrantRow True (unshiftQuadrantRow True g)
                  in adjust_up (g1\<lparr>offsetY := offsetY g1 + quadrantHeight g1\<rparr>)))
      else Inr g)"
  by pat_completeness auto
termination
  by (relation "measure (\<lambda>g. nat (- offsetY g))") auto

function adjust_down :: "quads_keepr \<Rightarrow> js_error + quads_keepr" where
  "adjust_down g =
     (if offsetY g > quadrantHeight g
      then (if quadrantHeight g \<le> 0 then Inl NoResult
            else (let g1 = unshiftQuadrantRow True (popQuadrantRow True g)
                  in adjust_down (g1\<lparr>offsetY := offsetY g1 - quadrantHeight g1\<rparr>)))
      else Inr g)"
  by pat_completeness auto
termination
  by (relation "measure (\<lambda>g. nat (offsetY g))") auto

declare adjust_left.simps [simp del] adjust_right.simps [simp del]
  adjust_up.simps [simp del] adjust_down.simps [simp del]

definition adjustOffsets :: "quads_keepr \<Rightarrow> js_error + quads_keepr" where
  "adjustOffsets g =
     (case adjust_left g of Inl e \<Rightarrow> Inl e | Inr g1 \<Rightarrow>
      case adjust_right g1 of Inl e \<Rightarrow> Inl e | Inr g2 \<Rightarrow>
      case adjust_up g2 of Inl e \<Rightarrow> Inl e | Inr g3 \<Rightarrow> adjust_down g3)"

text \<open>The cells the nested loops over rows \<open>0 .. numRows - 1\<close> and columns \<open>0 .. numCols - 1\<close> visit.\<close>

definition all_cells :: "quads_keepr \<Rightarrow> (nat \<times> nat) list" where
  "all_cells g = List.product [0..<nat (numRows g)] [0..<nat (numCols g)]"

text \<open>
  \<open>shiftQuadrants(dx, dy)\<close>. A quadrant that the containers hold at two places is
  shifted at each.
\<close>

definition shiftQuadrants :: "int \<Rightarrow> int \<Rightarrow> quads_keepr \<Rightarrow> js_error + quads_keepr" where
  "shiftQuadrants dx0 dy0 g =
     (let dx = to_int32 dx0; dy = to_int32 dy0;
          g1 = g\<lparr>offsetX := offsetX g + dx, offsetY := offsetY g + dy,
                 k_top := k_top g + dy, k_right := k_right g + dx,
                 k_bottom := k_bottom g + dy, k_left := k_left g + dx\<rparr>
      in case shift_containers (numRows g1) dx dy (quadrantRows g1) of Inl e \<Rightarrow> Inl e | Inr rows \<Rightarrow>
         case shift_containers (numCols g1) dx dy (quadrantCols g1) of Inl e \<Rightarrow> Inl e | Inr cols \<Rightarrow>
           let g2 = g1\<lparr>quadrantRows := rows, quadrantCols := cols\<rparr>
           in case fold_throw
                     (\<lambda>(row, col) st.
                        case cell_ref g2 row col of
                          Inl e \<Rightarrow> Inl e
                        | Inr ref \<Rightarrow> with_quadrant ref (\<lambda>q. shiftQuadrant q dx dy) st)
                     (all_cells g2) (store g2) of
                Inl e \<Rightarrow> Inl e
              | Inr st \<Rightarrow> adjustOffsets (g2\<lparr>store := st\<rparr>))"

text \<open>
  The positions of a Thing the grid works with. \<open>keyOffsetX\<close> and \<open>keyOffsetY\<close> say
  whether the settings name a key for the offset; the offsets of a Thing are the numbers
  it has under these keys. \<open>getBottom\<close> tests \<open>keyOffsetX\<close> and reads
  \<open>thing[this.keyOffsetY]\<close>: with no \<open>keyOffsetY\<close> that is \<open>undefined\<close>, its absolute
  value is \<open>NaN\<close>, and so is the bottom (\<open>None\<close>).
\<close>

definition getTop :: "quads_keepr \<Rightarrow> thing \<Rightarrow> int" where
  "getTop g t = (if keyOffsetY g then t_top t - \<bar>t_offsetY t\<bar> else t_top t)"

definition getRight :: "quads_keepr \<Rightarrow> thing \<Rightarrow> int" where
  "getRight g t = (if keyOffsetX g then t_right t + \<bar>t_offsetX t\<bar> else t_right t)"

definition getBottom :: "quads_keepr \<Rightarrow> thing \<Rightarrow> int option" where
  "getBottom g t =
     (if keyOffsetX g
      then (if keyOffsetY g then Some (t_bottom t + \<bar>t_offsetY t\<bar>) else None)
      else Some (t_bottom t))"

definition getLeft :: "quads_keepr \<Rightarrow> thing \<Rightarrow> int" where
  "getLeft g t = (if keyOffsetX g then t_left t - \<bar>t_offsetX t\<bar> else t_left t)"

text \<open>
  The index ranges: \<open>Math.floor(a / b)\<close> is \<open>a div b\<close> for whole numbers and a size
  \<open>b\<close> that is not \<open>0\<close>. \<open>Math.floor\<close> and \<open>Math.min\<close> of \<open>NaN\<close> are \<open>NaN\<close>.
\<close>

definition findQuadrantRowStart :: "quads_keepr \<Rightarrow> thing \<Rightarrow> int" where
  "findQuadrantRowStart g t = max ((getTop g t - k_top g) div quadrantHeight g) 0"

definition findQuadrantRowEnd :: "quads_keepr \<Rightarrow> thing \<Rightarrow> int option" where
  "findQuadrantRowEnd g t =
     map_option (\<lambda>bottom. min ((bottom - k_top g) div quadrantHeight g) (numRows g - 1)) (getBottom g t)"

definition findQuadrantColStart :: "quads_keepr \<Rightarrow> thing \<Rightarrow> int" where
  "findQuadrantColStart g t = max ((getLeft g t - k_left g) div quadrantWidth g) 0"

definition findQuadrantColEnd :: "quads_keepr \<Rightarrow> thing \<Rightarrow> int" where
  "findQuadrantColEnd g t = min ((getRight g t - k_left g) div quadrantWidth g) (numCols g - 1)"

text \<open>\<open>markThingQuadrantsChanged(thing)\<close>.\<close>

definition markThingQuadrantsChanged :: "thing \<Rightarrow> quadrant list \<Rightarrow> js_error + quadrant list" where
  "markThingQuadrantsChanged t st =
     fold_throw (\<lambda>i st'. with_quadrant (nth_opt (t_quadrants t) i) (\<lambda>q. q\<lparr>q_changed := True\<rparr>) st')
       [0..<t_numquads t] st"

text \<open>
  \<open>setThingInQuadrant(thing, quadrant, group)\<close>, on the Thing and the store. A count
  that is \<open>undefined\<close> while the array of the group exists is outside the model (no
  quadrant that \<open>createQuadrant\<close> makes is so).
\<close>

definition setThingInQuadrant :: "nat option \<Rightarrow> string \<Rightarrow> thing \<times> quadrant list \<Rightarrow> js_error + (thing \<times> quadrant list)" where
  "setThingInQuadrant ref grp ts =
     (case ts of (t, st) \<Rightarrow>
        case ref of
          None \<Rightarrow> Inl TypeError
        | Some qid \<Rightarrow>
            if length st \<le> qid then Inl TypeError
            else (let q = st ! qid
                  in case q_things q grp of
                       None \<Rightarrow> Inl TypeError
                     | Some arr \<Rightarrow>
                         (case q_numthings q grp of
                            None \<Rightarrow> Inl Unmodelled
                          | Some n \<Rightarrow>
                              Inr (t\<lparr>t_quadrants := js_array_set (t_quadrants t) (t_numquads t) qid,
                                     t_numquads := Suc (t_numquads t)\<rparr>,
                                   st[qid := q\<lparr>q_things := (q_things q)(grp \<mapsto> js_array_set arr n (t_id t)),
                                                q_numthings := (q_numthings q)(grp \<mapsto> Suc n),
                                                q_changed := (q_changed q \<or> t_changed t)\<rparr>]))))"

text \<open>
  The cells of the loops \<open>for (row = rowStart; row <= rowEnd; ...)\<close>,
  \<open>for (col = colStart; col <= colEnd; ...)\<close>. No \<open>row\<close> is \<open><= NaN\<close>.
\<close>

definition thing_cells :: "quads_keepr \<Rightarrow> thing \<Rightarrow> (nat \<times> nat) list" where
  "thing_cells g t =
     List.product
       (case findQuadrantRowEnd g t of
          None \<Rightarrow> []
        | Some rowEnd \<Rightarrow> map nat [findQuadrantRowStart g t..rowEnd])
       (map nat [findQuadrantColStart g t..findQuadrantColEnd g t])"

text \<open>\<open>determineThingQuadrants(thing)\<close>: the grid and the Thing after the call.\<close>

definition determineThingQuadrants :: "quads_keepr \<Rightarrow> thing \<Rightarrow> js_error + (quads_keepr \<times> thing)" where
  "determineThingQuadrants g t =
     (case (if t_changed t then markThingQuadrantsChanged t (store g) else Inr (store g)) of
        Inl e \<Rightarrow> Inl e
      | Inr st1 \<Rightarrow>
          (case fold_throw
                  (\<lambda>(row, col) ts.
                     case cell_ref g row col of
                       Inl e \<Rightarrow> Inl e
                     | Inr ref \<Rightarrow> setThingInQuadrant ref (t_group t) ts)
                  (thing_cells g t) (t\<lparr>t_numquads := 0\<rparr>, st1) of
             Inl e \<Rightarrow> Inl e
           | Inr (t', st2) \<Rightarrow> Inr (g\<lparr>store := st2\<rparr>, t'\<lparr>t_changed := False\<rparr>)))"

text \<open>
  \<open>determineAllQuadrants(group, things)\<close>: the counts of the group are set to \<open>0\<close> in
  every cell, then every Thing is placed.
\<close>

fun determine_each :: "quads_keepr \<Rightarrow> thing list \<Rightarrow> js_error + (quads_keepr \<times> thing list)" where
  "determine_each g [] = Inr (g, [])"
| "determine_each g (t # ts) =
     (case determineThingQuadrants g t of
        Inl e \<Rightarrow> Inl e
      | Inr (g1, t') \<Rightarrow>
          (case determine_each g1 ts of Inl e \<Rightarrow> Inl e | Inr (g2, ts') \<Rightarrow> Inr (g2, t' # ts')))"

definition determineAllQuadrants :: "string \<Rightarrow> thing list \<Rightarrow> quads_keepr \<Rightarrow> js_error + (quads_keepr \<times> thing list)" where
  "determineAllQuadrants grp things g =
     (case fold_throw
             (\<lambda>(row, col) st.
                case cell_ref g row col of
                  Inl e \<Rightarrow> Inl e
                | Inr ref \<Rightarrow> with_quadrant ref (\<lambda>q. q\<lparr>q_numthings := (q_numthings q)(grp \<mapsto> 0)\<rparr>) st)
             (all_cells g) (store g) of
        Inl e \<Rightarrow> Inl e
      | Inr st \<Rightarrow> determine_each (g\<lparr>store := st\<rparr>) things)"

text \<open>The bounds \<open>(top, right, bottom, left)\<close> of the quadrants behind a list of references.\<close>

definition bounds_of :: "quadrant list \<Rightarrow> nat option \<Rightarrow> (int \<times> int \<times> int \<times> int) option" where
  "bounds_of st ref =
     (case ref of
        None \<Rightarrow> None
      | Some i \<Rightarrow> if i < length st
                  then Some (q_top (st ! i), q_right (st ! i), q_bottom (st ! i), q_left (st ! i))
                  else None)"

text \<open>The bounds of every cell, row by row, as the row containers give them.\<close>

definition cell_bounds :: "quads_keepr \<Rightarrow> (int \<times> int \<times> int \<times> int) option list list" where
  "cell_bounds g = map (\<lambda>row. map (bounds_of (store g)) (c_quadrants row)) (quadrantRows g)"

text \<open>The Things a quadrant holds in a group: the first \<open>numthings[group]\<close> of \<open>things[group]\<close>.\<close>

definition held :: "quadrant \<Rightarrow> string \<Rightarrow> nat option list" where
  "held q grp =
     (case (q_things q grp, q_numthings q grp) of
        (Some arr, Some n) \<Rightarrow> take n arr
      | _ \<Rightarrow> [])"

text \<open>The quadrants a Thing records: the first \<open>numquads\<close> of its \<open>quadrants\<close>.\<close>

definition recorded :: "thing \<Rightarrow> nat option list" where
  "recorded t = take (t_numquads t) (t_quadrants t)"

text \<open>The references the row containers and the column containers hold.\<close>

definition row_refs :: "quads_keepr \<Rightarrow> nat option list" where
  "row_refs g = concat (map c_quadrants (quadrantRows g))"

definition col_refs :: "quads_keepr \<Rightarrow> nat option list" where
  "col_refs g = concat (map c_quadrants (quadrantCols g))"

text \<open>A grid as the constructor leaves it for \<open>resetQuadrants\<close>, with one group of Things.\<close>

definition keeper :: "int \<Rightarrow> int \<Rightarrow> int \<Rightarrow> int \<Rightarrow> quads_keepr" where
  "keeper rows cols width height =
     \<lparr>numRows = rows, numCols = cols, quadrantWidth = width, quadrantHeight = height,
      groupNames = [''Solid''], startLeft = 0, startTop = 0, keyOffsetX = False, keyOffsetY = False,
      k_top = 0, k_right = 0, k_bottom = 0, k_left = 0, offsetX = 0, offsetY = 0,
      quadrantRows = [], quadrantCols = [], store = [], notifications = []\<rparr>"

definition box :: "int \<Rightarrow> int \<Rightarrow> int \<Rightarrow> int \<Rightarrow> thing" where
  "box tp rt bt lf =
     \<lparr>t_id = 7, t_top = tp, t_right = rt, t_bottom = bt, t_left = lf, t_offsetX = 0, t_offsetY = 0,
      t_group = ''Solid'', t_changed = True, t_numquads = 0, t_quadrants = []\<rparr>"

text \<open>
  Vocabulary for the properties of \<open>shiftQuadrants\<close>: a shift followed by the
  opposite shift; a quadrant with its \<open>changed\<close> flag put aside; the update of one
  quadrant of the store; the containers after the loop that moves the first \<open>n\<close> of
  them; the quadrant behind a cell, and whether every cell of the grid has one.
\<close>

definition round_trip :: "int \<Rightarrow> int \<Rightarrow> quads_keepr \<Rightarrow> js_error + quads_keepr" where
  "round_trip dx dy g =
     (case shiftQuadrants dx dy g of Inl e \<Rightarrow> Inl e | Inr g1 \<Rightarrow> shiftQuadrants (- dx) (- dy) g1)"

definition unflag :: "quadrant \<Rightarrow> quadrant" where
  "unflag q = q\<lparr>q_changed := False\<rparr>"

definition upd :: "int \<Rightarrow> int \<Rightarrow> nat \<Rightarrow> quadrant list \<Rightarrow> quadrant list" where
  "upd dx dy i st = st[i := shiftQuadrant (st ! i) dx dy]"

definition moved :: "int \<Rightarrow> int \<Rightarrow> int \<Rightarrow> container list \<Rightarrow> container list" where
  "moved n dx dy cs =
     map (\<lambda>c. c\<lparr>c_left := c_left c + dx, c_top := c_top c + dy\<rparr>) (take (nat n) cs) @ drop (nat n) cs"

definition ref_id :: "container list \<Rightarrow> nat \<times> nat \<Rightarrow> nat" where
  "ref_id rows rc = (case nth_opt (c_quadrants (rows ! fst rc)) (snd rc) of Some i \<Rightarrow> i | None \<Rightarrow> 0)"

definition ref_in :: "container list \<Rightarrow> nat \<Rightarrow> nat \<times> nat \<Rightarrow> bool" where
  "ref_in rows n rc =
     (fst rc < length rows \<and>
      (case nth_opt (c_quadrants (rows ! fst rc)) (snd rc) of Some i \<Rightarrow> i < n | None \<Rightarrow> False))"

definition cells_valid :: "quads_keepr \<Rightarrow> bool" where
  "cells_valid g = list_all (ref_in (quadrantRows g) (length (store g))) (all_cells g)"

text \<open>
  Vocabulary for the properties of \<open>determineThingQuadrants\<close>. The quadrant of a cell
  is \<open>quadrantRows[row].quadrants[col]\<close>; the quadrants of the grid with a property are
  listed cell by cell, as \<open>determineAllQuadrants\<close> visits them.
\<close>

definition cell_quadrant :: "quads_keepr \<Rightarrow> nat \<times> nat \<Rightarrow> nat option" where
  "cell_quadrant g rc =
     (if fst rc < length (quadrantRows g) then nth_opt (c_quadrants (quadrantRows g ! fst rc)) (snd rc)
      else None)"

definition quadrants_where :: "(quadrant \<Rightarrow> bool) \<Rightarrow> quads_keepr \<Rightarrow> nat option list" where
  "quadrants_where P g =
     filter (\<lambda>ref. case ref of None \<Rightarrow> False | Some i \<Rightarrow> i < length (store g) \<and> P (store g ! i))
       (map (cell_quadrant g) (all_cells g))"

text \<open>A quadrant holds a Thing when the Thing is among the Things it has in the Thing's group.\<close>

definition holds :: "thing \<Rightarrow> quadrant \<Rightarrow> bool" where
  "holds t q = (Some (t_id t) \<in> set (held q (t_group t)))"

text \<open>
  The box of a Thing with its offsets, stated apart from the getters of the code: where a
  key for the vertical offset is set, the box reaches up and down by the size of that
  offset, and where a key for the horizontal offset is set, left and right by the size of
  that one.
\<close>

definition adjusted_top :: "quads_keepr \<Rightarrow> thing \<Rightarrow> int" where
  "adjusted_top g t = (if keyOffsetY g then t_top t - \<bar>t_offsetY t\<bar> else t_top t)"

definition adjusted_right :: "quads_keepr \<Rightarrow> thing \<Rightarrow> int" where
  "adjusted_right g t = (if keyOffsetX g then t_right t + \<bar>t_offsetX t\<bar> else t_right t)"

definition adjusted_bottom :: "quads_keepr \<Rightarrow> thing \<Rightarrow> int" where
  "adjusted_bottom g t = (if keyOffsetY g then t_bottom t + \<bar>t_offsetY t\<bar> else t_bottom t)"

definition adjusted_left :: "quads_keepr \<Rightarrow> thing \<Rightarrow> int" where
  "adjusted_left g t = (if keyOffsetX g then t_left t - \<bar>t_offsetX t\<bar> else t_left t)"

text \<open>
  Three ways for the box of a Thing to meet a quadrant. \<open>occupies\<close>: the quadrant without
  its right and bottom edge meets the box, edges included. \<open>touches\<close> and \<open>overlaps\<close> are
  the two readings of the word "intersect": both with their edges, and both without.
\<close>

definition occupies :: "quads_keepr \<Rightarrow> thing \<Rightarrow> quadrant \<Rightarrow> bool" where
  "occupies g t q =
     (q_left q \<le> adjusted_right g t \<and> adjusted_left g t < q_right q \<and>
      q_top q \<le> adjusted_bottom g t \<and> adjusted_top g t < q_bottom q)"

definition touches :: "quads_keepr \<Rightarrow> thing \<Rightarrow> quadrant \<Rightarrow> bool" where
  "touches g t q =
     (q_left q \<le> adjusted_right g t \<and> adjusted_left g t \<le> q_right q \<and>
      q_top q \<le> adjusted_bottom g t \<and> adjusted_top g t \<le> q_bottom q)"

definition overlaps :: "quads_keepr \<Rightarrow> thing \<Rightarrow> quadrant \<Rightarrow> bool" where
  "overlaps g t q =
     (q_left q < adjusted_right g t \<and> adjusted_left g t < q_right q \<and>
      q_top q < adjusted_bottom g t \<and> adjusted_top g t < q_bottom q)"

text \<open>
  A grid whose cells are where \<open>resetQuadrants\<close> puts them: the quadrant of the cell
  \<open>(row, col)\<close> starts \<open>col\<close> widths right of \<open>left\<close> and \<open>row\<close> heights below
  \<open>top\<close>, and every quadrant has the array and the count of the group.
\<close>

definition cell_ok :: "quads_keepr \<Rightarrow> nat \<times> nat \<Rightarrow> bool" where
  "cell_ok g rc =
     (case cell_quadrant g rc of
        None \<Rightarrow> False
      | Some i \<Rightarrow>
          i < length (store g) \<and>
          q_left (store g ! i) = k_left g + int (snd rc) * quadrantWidth g \<and>
          q_right (store g ! i) = q_left (store g ! i) + quadrantWidth g \<and>
          q_top (store g ! i) = k_top g + int (fst rc) * quadrantHeight g \<and>
          q_bottom (store g ! i) = q_top (store g ! i) + quadrantHeight g)"

definition store_ok :: "string \<Rightarrow> quadrant list \<Rightarrow> bool" where
  "store_ok grp st = list_all (\<lambda>q. q_things q grp \<noteq> None \<and> q_numthings q grp \<noteq> None) st"

definition grid_ok :: "quads_keepr \<Rightarrow> string \<Rightarrow> bool" where
  "grid_ok g grp =
     (0 < quadrantWidth g \<and> 0 < quadrantHeight g \<and>
      list_all (cell_ok g) (all_cells g) \<and>
      store_ok grp (store g))"

text \<open>
  The numbers that the index ranges of a Thing are computed from are of a size at which
  the sums, the differences and the rounded quotients of doubles are those of the integers.
\<close>

definition exact_positions :: "quads_keepr \<Rightarrow> thing \<Rightarrow> bool" where
  "exact_positions g t =
     list_all (\<lambda>x. \<bar>x\<bar> < 2 ^ 51)
       [t_top t, t_right t, t_bottom t, t_left t, t_offsetX t, t_offsetY t,
        k_top g, k_left g, quadrantWidth g, quadrantHeight g, numRows g, numCols g]"

text \<open>The quadrants a Thing has from an earlier call are quadrants of the store.\<close>

definition recorded_ok :: "quads_keepr \<Rightarrow> thing \<Rightarrow> bool" where
  "recorded_ok g t =
     list_all (\<lambda>i. case nth_opt (t_quadrants t) i of None \<Rightarrow> False | Some q \<Rightarrow> q < length (store g))
       [0..<t_numquads t]"

text \<open>
  The quadrants a Thing records and the quadrants that hold it, after one call and after
  a second call for the Thing moved elsewhere.
\<close>

definition moved_to :: "thing \<Rightarrow> int \<Rightarrow> int \<Rightarrow> int \<Rightarrow> int \<Rightarrow> thing" where
  "moved_to t tp rt bt lf = t\<lparr>t_top := tp, t_right := rt, t_bottom := bt, t_left := lf, t_changed := True\<rparr>"

definition placed :: "quads_keepr \<Rightarrow> thing \<Rightarrow> js_error + (nat option list \<times> nat option list)" where
  "placed g t =
     (case determineThingQuadrants g t of
        Inl e \<Rightarrow> Inl e
      | Inr (g', t') \<Rightarrow> Inr (recorded t', quadrants_where (holds t') g'))"

definition placed_again :: "quads_keepr \<Rightarrow> thing \<Rightarrow> int \<Rightarrow> int \<Rightarrow> int \<Rightarrow> int \<Rightarrow> js_error + (nat option list \<times> nat option list)" where
  "placed_again g t tp rt bt lf =
     (case determineThingQuadrants g t of
        Inl e \<Rightarrow> Inl e
      | Inr (g', t') \<Rightarrow> placed g' (moved_to t' tp rt bt lf))"

section \<open>PixelDrawr: drawing the changed quadrants\<close>

text \<open>
  The canvases of the renderer, and the calls it makes on their 2D contexts. A call names
  the canvas whose context it is made on first. Assignments to \<open>globalAlpha\<close> and
  \<open>fillStyle\<close> are logged with the calls.
\<close>

datatype surface =
    MainCanvas
  | BackgroundCanvas
  | QuadrantCanvas nat
  | ThingCanvas nat
  | PartCanvas nat string

datatype ctx_op =
    GlobalAlpha surface rat
  | DrawImage surface surface int int
  | DrawImageSized surface surface int int rat rat
  | DrawImageFrom surface surface int int int int int int int int
  | Translate surface int int
  | FillPattern surface surface
  | FillRect surface int int int int

text \<open>
  The members of a Thing the renderer reads. \<open>thing.canvases\<close> is \<open>undefined\<close> until
  \<open>refillThingCanvasMultiple\<close> sets it; its parts are the members other than
  \<open>direction\<close> and \<open>multiple\<close>. The heights and widths of the sprite are \<open>0\<close> when
  absent (both are falsy).
\<close>

record sprite_canvases =
  cv_direction :: string
  cv_parts :: "string \<rightharpoonup> surface"

record drawn_thing =
  th_hidden :: bool
  th_top :: int
  th_right :: int
  th_bottom :: int
  th_left :: int
  th_offsetX :: int
  th_offsetY :: int
  th_opacity :: rat
  th_numSprites :: "nat option"
  th_canvas :: surface
  th_canvases :: "sprite_canvases option"
  th_repeat :: bool
  th_scale :: rat
  th_unitwidth :: int
  th_unitheight :: int
  th_spritewidthpixels :: int
  th_spriteheightpixels :: int
  sp_topheight :: int
  sp_rightwidth :: int
  sp_bottomheight :: int
  sp_leftwidth :: int
  sp_middleStretch :: bool

text \<open>
  The renderer: its settings, the size of the \<open>MapScreener\<close>, the width and height of
  every canvas, the Things behind the identifiers the quadrants hold, and the calls made
  so far.
\<close>

record pixel_drawr =
  dr_unitsize :: int
  dr_noRefill :: bool
  dr_groupNames :: "string list"
  dr_framerateSkip :: int
  dr_framesDrawn :: int
  dr_epsilon :: rat
  dr_keyOffsetX :: bool
  dr_keyOffsetY :: bool
  dr_width :: int
  dr_height :: int
  dr_canvas_size :: "surface \<Rightarrow> int \<times> int"
  dr_things :: "nat \<rightharpoonup> drawn_thing"
  dr_calls :: "ctx_op list"

definition PixelDrawr_getTop :: "pixel_drawr \<Rightarrow> drawn_thing \<Rightarrow> int" where
  "PixelDrawr_getTop d th = (if dr_keyOffsetY d then th_top th + th_offsetY th else th_top th)"

definition PixelDrawr_getRight :: "pixel_drawr \<Rightarrow> drawn_thing \<Rightarrow> int" where
  "PixelDrawr_getRight d th = (if dr_keyOffsetX d then th_right th + th_offsetX th else th_right th)"

text \<open>
  \<open>getBottom\<close> tests \<open>keyOffsetX\<close> and reads \<open>thing[this.keyOffsetY]\<close>, which is
  \<open>undefined\<close> when no \<open>keyOffsetY\<close> is set: the sum is \<open>NaN\<close> (\<open>None\<close>).
\<close>

definition PixelDrawr_getBottom :: "pixel_drawr \<Rightarrow> drawn_thing \<Rightarrow> int option" where
  "PixelDrawr_getBottom d th =
     (if dr_keyOffsetX d
      then (if dr_keyOffsetY d then Some (th_bottom th + th_offsetY th) else None)
      else Some (th_bottom th))"

definition PixelDrawr_getLeft :: "pixel_drawr \<Rightarrow> drawn_thing \<Rightarrow> int" where
  "PixelDrawr_getLeft d th = (if dr_keyOffsetX d then th_left th + th_offsetX th else th_left th)"

text \<open>\<open>drawPatternOnCanvas(context, source, left, top, width, height, opacity)\<close>.\<close>

definition drawPatternOnCanvas :: "surface \<Rightarrow> surface \<Rightarrow> int \<Rightarrow> int \<Rightarrow> int \<Rightarrow> int \<Rightarrow> rat \<Rightarrow> ctx_op list" where
  "drawPatternOnCanvas ctx source lft tp width height opacity =
     [GlobalAlpha ctx opacity, Translate ctx lft tp, FillPattern ctx source,
      FillRect ctx 0 0 width height, Translate ctx (- lft) (- tp), GlobalAlpha ctx 1]"

text \<open>\<open>drawThingOnContextSingle(context, canvas, thing, left, top)\<close>; \<open>thing.opacity || 1\<close> is \<open>1\<close> for the opacity \<open>0\<close>.\<close>

definition drawThingOnContextSingle :: "pixel_drawr \<Rightarrow> surface \<Rightarrow> surface \<Rightarrow> drawn_thing \<Rightarrow> int \<Rightarrow> int \<Rightarrow> ctx_op list" where
  "drawThingOnContextSingle d ctx canvas th lft tp =
     (let sized = DrawImageSized ctx canvas lft tp
                    (of_int (fst (dr_canvas_size d canvas)) * th_scale th)
                    (of_int (snd (dr_canvas_size d canvas)) * th_scale th)
      in if th_repeat th
         then drawPatternOnCanvas ctx canvas lft tp (th_unitwidth th) (th_unitheight th)
                (if th_opacity th = 0 then 1 else th_opacity th)
         else if th_opacity th \<noteq> 1
         then [GlobalAlpha ctx (th_opacity th), sized, GlobalAlpha ctx 1]
         else [sized])"

text \<open>A step that may throw, followed by the rest of the function.\<close>

definition and_then :: "js_error + 'a \<Rightarrow> ('a \<Rightarrow> js_error + 'b) \<Rightarrow> js_error + 'b" where
  "and_then r f = (case r of Inl e \<Rightarrow> Inl e | Inr x \<Rightarrow> f x)"

text \<open>\<open>canvases.topLeft.canvas\<close> and its siblings: a member of \<open>undefined\<close> cannot be read.\<close>

definition part_canvas :: "sprite_canvases \<Rightarrow> string \<Rightarrow> js_error + surface" where
  "part_canvas canvases k = (case cv_parts canvases k of None \<Rightarrow> Inl TypeError | Some s \<Rightarrow> Inr s)"

text \<open>
  The local variables of \<open>drawThingOnContextMultiple\<close> that the cases of the \<open>switch\<close>
  change, with the calls made so far.
\<close>

record room =
  leftreal :: int
  topreal :: int
  rightreal :: int
  bottomreal :: int
  widthreal :: int
  heightreal :: int
  drawn :: "ctx_op list"

definition height_or :: "pixel_drawr \<Rightarrow> drawn_thing \<Rightarrow> int \<Rightarrow> int" where
  "height_or d th h = (if h \<noteq> 0 then h * dr_unitsize d else th_spriteheightpixels th)"

definition width_or :: "pixel_drawr \<Rightarrow> drawn_thing \<Rightarrow> int \<Rightarrow> int" where
  "width_or d th w = (if w \<noteq> 0 then w * dr_unitsize d else th_spritewidthpixels th)"

text \<open>The case \<open>"vertical"\<close>.\<close>

definition multiple_vertical :: "pixel_drawr \<Rightarrow> surface \<Rightarrow> sprite_canvases \<Rightarrow> drawn_thing \<Rightarrow> room \<Rightarrow> room" where
  "multiple_vertical d ctx canvases th r0 =
     (let heightdrawn = min (th_unitheight th) (th_spriteheightpixels th);
          r1 = (case cv_parts canvases ''bottom'' of
                  None \<Rightarrow> r0
                | Some s \<Rightarrow>
                    (let diffvert = height_or d th (sp_bottomheight th)
                     in r0\<lparr>bottomreal := bottomreal r0 - diffvert,
                           heightreal := heightreal r0 - diffvert,
                           drawn := drawn r0 @ drawPatternOnCanvas ctx s (leftreal r0) (bottomreal r0 - diffvert)
                                                (widthreal r0) heightdrawn (th_opacity th)\<rparr>))
      in (case cv_parts canvases ''top'' of
            None \<Rightarrow> r1
          | Some s \<Rightarrow>
              (let diffvert = height_or d th (sp_topheight th)
               in r1\<lparr>topreal := topreal r1 + diffvert,
                     heightreal := heightreal r1 - diffvert,
                     drawn := drawn r1 @ drawPatternOnCanvas ctx s (leftreal r1) (topreal r1)
                                          (widthreal r1) heightdrawn (th_opacity th)\<rparr>)))"

text \<open>The case \<open>"horizontal"\<close>.\<close>

definition multiple_horizontal :: "pixel_drawr \<Rightarrow> surface \<Rightarrow> sprite_canvases \<Rightarrow> drawn_thing \<Rightarrow> room \<Rightarrow> room" where
  "multiple_horizontal d ctx canvases th r0 =
     (let widthdrawn = min (th_unitwidth th) (th_spritewidthpixels th);
          r1 = (case cv_parts canvases ''left'' of
                  None \<Rightarrow> r0
                | Some s \<Rightarrow>
                    (let diffhoriz = width_or d th (sp_leftwidth th)
                     in r0\<lparr>leftreal := leftreal r0 + diffhoriz,
                           widthreal := widthreal r0 - diffhoriz,
                           drawn := drawn r0 @ drawPatternOnCanvas ctx s (leftreal r0) (topreal r0)
                                                widthdrawn (heightreal r0) (th_opacity th)\<rparr>))
      in (case cv_parts canvases ''right'' of
            None \<Rightarrow> r1
          | Some s \<Rightarrow>
              (let diffhoriz = width_or d th (sp_rightwidth th)
               in r1\<lparr>rightreal := rightreal r1 - diffhoriz,
                     widthreal := widthreal r1 - diffhoriz,
                     drawn := drawn r1 @ drawPatternOnCanvas ctx s (rightreal r1 - diffhoriz) (topreal r1)
                                          widthdrawn (heightreal r1) (th_opacity th)\<rparr>)))"

text \<open>The case \<open>"corners"\<close>, which reads all eight parts.\<close>

definition multiple_corners :: "pixel_drawr \<Rightarrow> surface \<Rightarrow> sprite_canvases \<Rightarrow> drawn_thing \<Rightarrow> room \<Rightarrow> js_error + room" where
  "multiple_corners d ctx canvases th r0 =
     (let widthdrawn = min (th_unitwidth th) (th_spritewidthpixels th);
          heightdrawn = min (th_unitheight th) (th_spriteheightpixels th);
          opacity = th_opacity th;
          dvt = height_or d th (sp_topheight th);
          dhl = width_or d th (sp_leftwidth th);
          dhr = width_or d th (sp_rightwidth th);
          dvb = height_or d th (sp_bottomheight th);
          leftreal1 = leftreal r0 + dhl;
          widthreal1 = widthreal r0 - dhl;
          topreal1 = topreal r0 + dvt;
          heightreal1 = heightreal r0 - dvt
      in and_then (part_canvas canvases ''topLeft'') (\<lambda>topLeft.
         and_then (part_canvas canvases ''left'') (\<lambda>lft.
         and_then (part_canvas canvases ''bottomLeft'') (\<lambda>bottomLeft.
         and_then (part_canvas canvases ''top'') (\<lambda>tp.
         and_then (part_canvas canvases ''topRight'') (\<lambda>topRight.
         and_then (part_canvas canvases ''right'') (\<lambda>rght.
         and_then (part_canvas canvases ''bottomRight'') (\<lambda>bottomRight.
         and_then (part_canvas canvases ''bottom'') (\<lambda>bttm.
           Inr (r0\<lparr>leftreal := leftreal1,
                    topreal := topreal1,
                    rightreal := rightreal r0 - dhr,
                    bottomreal := bottomreal r0 - dvb,
                    widthreal := widthreal1 - dhr,
                    heightreal := heightreal1 - dvb,
                    drawn := drawn r0
                      @ drawPatternOnCanvas ctx topLeft (leftreal r0) (topreal r0) widthdrawn heightdrawn opacity
                      @ drawPatternOnCanvas ctx lft (leftreal r0) (topreal r0 + dvt) widthdrawn
                          (heightreal r0 - dvt * 2) opacity
                      @ drawPatternOnCanvas ctx bottomLeft (leftreal r0) (bottomreal r0 - dvt) widthdrawn
                          heightdrawn opacity
                      @ drawPatternOnCanvas ctx tp leftreal1 (topreal r0) (widthreal1 - dhr) heightdrawn opacity
                      @ drawPatternOnCanvas ctx topRight (rightreal r0 - dhr) (topreal r0) widthdrawn
                          heightdrawn opacity
                      @ drawPatternOnCanvas ctx rght (rightreal r0 - dhr) topreal1 widthdrawn
                          (heightreal1 - dvb) opacity
                      @ drawPatternOnCanvas ctx bottomRight (rightreal r0 - dhr) (bottomreal r0 - dvb)
                          widthdrawn heightdrawn opacity
                      @ drawPatternOnCanvas ctx bttm leftreal1 (bottomreal r0 - dvb) (widthreal1 - dhr)
                          heightdrawn opacity\<rparr>))))))))))"

text \<open>\<open>drawThingOnContextMultiple(context, canvases, thing, left, top)\<close>: the calls it makes.\<close>

definition drawThingOnContextMultiple :: "pixel_drawr \<Rightarrow> surface \<Rightarrow> sprite_canvases \<Rightarrow> drawn_thing \<Rightarrow> int \<Rightarrow> int \<Rightarrow> js_error + ctx_op list" where
  "drawThingOnContextMultiple d ctx canvases th lft tp =
     (let r0 = \<lparr>leftreal = lft, topreal = tp, rightreal = lft + th_unitwidth th,
                bottomreal = tp + th_unitheight th, widthreal = th_unitwidth th,
                heightreal = th_unitheight th, drawn = []\<rparr>
      in and_then
           (if cv_direction canvases = ''vertical'' then Inr (multiple_vertical d ctx canvases th r0)
            else if cv_direction canvases = ''horizontal'' then Inr (multiple_horizontal d ctx canvases th r0)
            else if cv_direction canvases = ''corners'' then multiple_corners d ctx canvases th r0
            else Inr r0)
           (\<lambda>r. Inr (drawn r @
              (case cv_parts canvases ''middle'' of
                 None \<Rightarrow> []
               | Some s \<Rightarrow>
                   if topreal r < bottomreal r \<and> leftreal r < rightreal r
                   then (if sp_middleStretch th
                         then [GlobalAlpha ctx (th_opacity th),
                               DrawImageSized ctx s (leftreal r) (topreal r)
                                 (of_int (widthreal r)) (of_int (heightreal r)),
                               GlobalAlpha ctx 1]
                         else drawPatternOnCanvas ctx s (leftreal r) (topreal r) (widthreal r)
                                (heightreal r) (th_opacity th))
                   else []))))"

text \<open>\<open>drawThingOnQuadrant(thing, quadrant)\<close>, for the quadrant at index \<open>qid\<close> of the store.\<close>

definition drawThingOnQuadrant :: "pixel_drawr \<Rightarrow> drawn_thing \<Rightarrow> nat \<Rightarrow> quadrant \<Rightarrow> js_error + ctx_op list" where
  "drawThingOnQuadrant d th qid q =
     (if th_hidden th \<or> PixelDrawr_getTop d th > q_bottom q \<or> PixelDrawr_getRight d th < q_left q
         \<or> (case PixelDrawr_getBottom d th of None \<Rightarrow> False | Some bottom \<Rightarrow> bottom < q_top q)
         \<or> PixelDrawr_getLeft d th > q_right q
         \<or> th_opacity th < dr_epsilon d
      then Inr []
      else if th_numSprites th = Some 1
      then Inr (drawThingOnContextSingle d (QuadrantCanvas qid) (th_canvas th) th
                  (PixelDrawr_getLeft d th - q_left q) (PixelDrawr_getTop d th - q_top q))
      else (case th_canvases th of
              None \<Rightarrow> Inl TypeError
            | Some canvases \<Rightarrow>
                drawThingOnContextMultiple d (QuadrantCanvas qid) canvases th
                  (PixelDrawr_getLeft d th - q_left q) (PixelDrawr_getTop d th - q_top q)))"

text \<open>
  The loop \<open>for (j = 0; j < group.length; j += 1)\<close> of \<open>refillQuadrant\<close>: every element
  of the array is drawn, also past \<open>numthings\<close>. A hole has no member \<open>hidden\<close>.
\<close>

definition draw_group :: "pixel_drawr \<Rightarrow> nat \<Rightarrow> quadrant \<Rightarrow> nat option list \<Rightarrow> ctx_op list \<Rightarrow> js_error + ctx_op list" where
  "draw_group d qid q arr ops =
     fold_throw (\<lambda>entry ops'.
                   case entry of
                     None \<Rightarrow> Inl TypeError
                   | Some i \<Rightarrow>
                       (case dr_things d i of
                          None \<Rightarrow> Inl Unmodelled
                        | Some th \<Rightarrow> and_then (drawThingOnQuadrant d th qid q) (\<lambda>new. Inr (ops' @ new))))
       arr ops"

text \<open>\<open>refillQuadrant(quadrant)\<close>: the calls it makes and the quadrant after it.\<close>

definition refillQuadrant :: "pixel_drawr \<Rightarrow> nat \<Rightarrow> quadrant \<Rightarrow> js_error + (ctx_op list \<times> quadrant)" where
  "refillQuadrant d qid q =
     (let size = dr_canvas_size d (QuadrantCanvas qid);
          background =
            (if dr_noRefill d then []
             else [DrawImageFrom (QuadrantCanvas qid) BackgroundCanvas (q_left q) (q_top q)
                     (fst size) (snd size) 0 0 (fst size) (snd size)])
      in and_then
           (fold_throw (\<lambda>name ops.
                          case q_things q name of
                            None \<Rightarrow> Inl TypeError
                          | Some arr \<Rightarrow> draw_group d qid q arr ops)
              (rev (dr_groupNames d)) background)
           (\<lambda>ops. Inr (ops, q\<lparr>q_changed := False\<rparr>)))"

text \<open>The test of \<open>refillQuadrants\<close>: the quadrant has changed and is on the screen.\<close>

definition due :: "pixel_drawr \<Rightarrow> quadrant \<Rightarrow> bool" where
  "due d q =
     (q_changed q \<and> q_top q < dr_height d \<and> q_right q > 0 \<and> q_bottom q > 0 \<and> q_left q < dr_width d)"

text \<open>\<open>refillQuadrants(quadrants)\<close>, on the renderer and the store of quadrants.\<close>

definition refill_step :: "nat option \<Rightarrow> pixel_drawr \<times> quadrant list \<Rightarrow> js_error + (pixel_drawr \<times> quadrant list)" where
  "refill_step ref ds =
     (case ds of (d, st) \<Rightarrow>
        case ref of
          None \<Rightarrow> Inl TypeError
        | Some i \<Rightarrow>
            if length st \<le> i then Inl TypeError
            else if due d (st ! i)
            then and_then (refillQuadrant d i (st ! i))
                   (\<lambda>(ops, q). Inr (d\<lparr>dr_calls := dr_calls d @ ops
                                         @ [DrawImage MainCanvas (QuadrantCanvas i) (q_left q) (q_top q)]\<rparr>,
                                     st[i := q]))
            else Inr (d, st))"

definition refillQuadrants :: "nat option list \<Rightarrow> pixel_drawr \<times> quadrant list \<Rightarrow> js_error + (pixel_drawr \<times> quadrant list)" where
  "refillQuadrants quadrants ds = fold_throw refill_step quadrants ds"

text \<open>\<open>refillQuadrantGroups(groups)\<close>.\<close>

definition refillQuadrantGroups :: "container list \<Rightarrow> pixel_drawr \<times> quadrant list \<Rightarrow> js_error + (pixel_drawr \<times> quadrant list)" where
  "refillQuadrantGroups groups ds =
     (case ds of (d, st) \<Rightarrow>
        (let d1 = d\<lparr>dr_framesDrawn := dr_framesDrawn d + 1\<rparr>
         in if dr_framesDrawn d1 mod dr_framerateSkip d1 \<noteq> 0 then Inr (d1, st)
            else fold_throw (\<lambda>c. refillQuadrants (c_quadrants c)) groups (d1, st)))"

text \<open>A reference the loop of \<open>refillQuadrants\<close> passes over: its quadrant is not due.\<close>

definition skipped :: "pixel_drawr \<Rightarrow> quadrant list \<Rightarrow> nat option \<Rightarrow> bool" where
  "skipped d st ref = (case ref of None \<Rightarrow> False | Some i \<Rightarrow> i < length st \<and> \<not> due d (st ! i))"

definition only_due :: "pixel_drawr \<Rightarrow> quadrant list \<Rightarrow> container \<Rightarrow> container" where
  "only_due d st c = c\<lparr>c_quadrants := filter (\<lambda>ref. \<not> skipped d st ref) (c_quadrants c)\<rparr>"

text \<open>
  The grid of a QuadsKeepr whose settings name the offset keys as given, and a Thing with
  a vertical offset of 4.
\<close>

definition keyed :: "bool \<Rightarrow> bool \<Rightarrow> quads_keepr \<Rightarrow> quads_keepr" where
  "keyed kx ky g = g\<lparr>keyOffsetX := kx, keyOffsetY := ky\<rparr>"

definition offset_box :: thing where
  "offset_box = (box 12 18 18 12)\<lparr>t_offsetY := 4\<rparr>"

text \<open>Fixtures: the start state of the unravel loop, and the states and objects of the examples.\<close>

definition unravel_start :: "nat \<Rightarrow> palette \<Rightarrow> unravel_state" where
  "unravel_start digitsizeDefault pal =
     \<lparr>paletteref = getPaletteReferenceStarting digitsizeDefault pal,
      digitsize = digitsizeDefault, outstr = [], loc = 0\<rparr>"

definition stuck_state :: unravel_state where
  "stuck_state = \<lparr>paletteref = make_reference [(''0'', ''0'')], digitsize = 1, outstr = [], loc = 4\<rparr>"

definition rendr_of :: "jsval \<Rightarrow> pixel_rendr" where
  "rendr_of lib = \<lparr>BaseFiler = \<lparr>library = lib, normal = ''normal'', cache = Map.empty\<rparr>,
                   dimsCache = Map.empty, rendr_scale = 1,
                   flipVert = ''flip-vert'', flipHoriz = ''flip-horiz''\<rparr>"

definition parse_start :: parse_state where
  "parse_start = \<lparr>baseCache = Map.empty, posts = []\<rparr>"

definition att11 :: attributes where
  "att11 = \<lparr>spriteWidth = 1, spriteHeight = 1\<rparr>"

text \<open>A Thing with one sprite, a renderer with a 20 by 20 screen, and what a frame leaves behind.\<close>

definition sprite_box :: drawn_thing where
  "sprite_box =
     \<lparr>th_hidden = False, th_top = 5, th_right = 15, th_bottom = 15, th_left = 5,
      th_offsetX = 0, th_offsetY = 0, th_opacity = 1, th_numSprites = Some 1,
      th_canvas = ThingCanvas 7, th_canvases = None, th_repeat = False, th_scale = 1,
      th_unitwidth = 10, th_unitheight = 10, th_spritewidthpixels = 10, th_spriteheightpixels = 10,
      sp_topheight = 0, sp_rightwidth = 0, sp_bottomheight = 0, sp_leftwidth = 0,
      sp_middleStretch = False\<rparr>"

definition screen_drawr :: pixel_drawr where
  "screen_drawr =
     \<lparr>dr_unitsize = 1, dr_noRefill = False, dr_groupNames = [''Solid''], dr_framerateSkip = 1,
      dr_framesDrawn = 0, dr_epsilon = 7 / 1000, dr_keyOffsetX = False, dr_keyOffsetY = False,
      dr_width = 20, dr_height = 20, dr_canvas_size = (\<lambda>s. (10, 10)),
      dr_things = [7 \<mapsto> sprite_box], dr_calls = []\<rparr>"

definition frame_calls :: "js_error + (pixel_drawr \<times> quadrant list) \<Rightarrow> js_error + (int \<times> ctx_op list \<times> bool list)" where
  "frame_calls r = map_sum id (\<lambda>(d, st). (dr_framesDrawn d, dr_calls d, map q_changed st)) r"

subsection \<open>Decoding run lengths\<close>

lemma digit_char_props: "d < 10 \<Longrightarrow> is_digit (digit_char d) \<and> digit_val (digit_char d) = d"
proof -
  assume "d < 10"
  then have "d = 0 \<or> d = 1 \<or> d = 2 \<or> d = 3 \<or> d = 4 \<or> d = 5 \<or> d = 6 \<or> d = 7 \<or> d = 8 \<or> d = 9"
    by arith
  then show ?thesis
    by (elim disjE) (simp_all add: is_digit_def digit_char_def digit_val_def)
qed

lemma js_String_digits: "list_all is_digit (js_String n)"
proof (induction n rule: js_String.induct)
  case (1 n)
  show ?case
  proof (cases "n < 10")
    case True
    then show ?thesis by (subst js_String.simps) (simp add: digit_char_props)
  next
    case False
    have "n mod 10 < 10" by simp
    with False 1 show ?thesis by (subst js_String.simps) (simp add: digit_char_props)
  qed
qed

lemma js_String_not_Nil: "js_String n \<noteq> []"
  by (subst js_String.simps) simp

lemma digits_val_snoc: "digits_val (s @ [c]) = 10 * digits_val s + digit_val c"
  by (simp add: digits_val_def)

lemma digits_val_js_String: "digits_val (js_String n) = n"
proof (induction n rule: js_String.induct)
  case (1 n)
  show ?case
  proof (cases "n < 10")
    case True
    then show ?thesis by (subst js_String.simps) (simp add: digit_char_props digits_val_def)
  next
    case False
    have "n mod 10 < 10" by simp
    with False 1 show ?thesis
      by (subst js_String.simps) (simp add: digit_char_props digits_val_snoc)
  qed
qed

lemma js_Number_js_String: "n \<le> 2 ^ 53 \<Longrightarrow> js_Number (js_String n) = Some n"
  by (simp add: js_Number_def js_String_digits digits_val_js_String)

lemma length_js_String_mono: "i \<le> n \<Longrightarrow> length (js_String i) \<le> length (js_String n)"
proof (induction n arbitrary: i rule: js_String.induct)
  case (1 n)
  show ?case
  proof (cases "n < 10")
    case True
    with "1.prems" have "i < 10" by simp
    with True show ?thesis by (simp add: js_String.simps [of i] js_String.simps [of n])
  next
    case False
    show ?thesis
    proof (cases "i < 10")
      case True
      with False show ?thesis by (simp add: js_String.simps [of i] js_String.simps [of n])
    next
      case i: False
      from "1.prems" have "i div 10 \<le> n div 10" by (rule div_le_mono)
      with False "1.IH" have "length (js_String (i div 10)) \<le> length (js_String (n div 10))" by simp
      with False i show ?thesis by (simp add: js_String.simps [of i] js_String.simps [of n])
    qed
  qed
qed

lemma stringOf_char: "stringOf [c] k = replicate k c"
  by (induction k) (simp_all add: stringOf_def)

lemma digits_val_zeros: "digits_val (replicate k CHR ''0'' @ s) = digits_val s"
proof -
  have "foldl (\<lambda>acc c. 10 * acc + digit_val c) 0 (replicate k CHR ''0'') = 0"
    by (induction k) (simp_all add: digit_val_def)
  then show ?thesis by (simp add: digits_val_def)
qed

text \<open>The digit group of palette index \<open>i\<close>.\<close>

lemma makeDigit_index:
  assumes "i < length pal" and small: "length pal \<le> 2 ^ 53"
  defines "d \<equiv> makeDigit (js_String i) (decimal_digits (length pal)) ''0''"
  shows "length d = decimal_digits (length pal)" and "list_all is_digit d" and "js_Number d = Some i" and "d \<noteq> []"
proof -
  from assms(1) have le: "length (js_String i) \<le> decimal_digits (length pal)"
    by (simp add: decimal_digits_def length_js_String_mono)
  have d: "d = replicate (decimal_digits (length pal) - length (js_String i)) CHR ''0'' @ js_String i"
    by (simp add: d_def makeDigit_def stringOf_char)
  from le show "length d = decimal_digits (length pal)" by (simp add: d)
  have z: "is_digit CHR ''0''" by (simp add: is_digit_def)
  show dig: "list_all is_digit d"
    using js_String_digits [of i] z by (auto simp: d list_all_iff)
  have "digits_val d = i" by (simp add: d digits_val_zeros digits_val_js_String)
  moreover from assms(1) small have "i \<le> 2 ^ 53" by simp
  ultimately show "js_Number d = Some i"
    using dig by (simp add: js_Number_def)
  show "d \<noteq> []" by (simp add: d js_String_not_Nil)
qed

lemma make_reference_identity:
  assumes "\<forall>(k, v) \<in> set kvs. v = k" and "(k, k) \<in> set kvs"
  shows "make_reference kvs k = Some k"
proof -
  from assms(2) have "k \<in> fst ` set (rev kvs)" by force
  then have "map_of (rev kvs) k \<noteq> None" by (simp add: map_of_eq_None_iff)
  then obtain v where v: "map_of (rev kvs) k = Some v" by blast
  then have "(k, v) \<in> set kvs" by (auto dest: map_of_SomeD)
  with assms(1) have "v = k" by auto
  with v show ?thesis by (simp add: make_reference_def)
qed

lemma starting_reference:
  assumes "i < length pal"
  shows "getPaletteReferenceStarting ds pal (makeDigit (js_String i) ds ''0'') = Some (makeDigit (js_String i) ds ''0'')"
  unfolding getPaletteReferenceStarting_def
proof (rule make_reference_identity)
  show "\<forall>(k, v)\<in>set (map (\<lambda>(i, entry). (makeDigit (js_String i) ds ''0'', makeDigit (js_String i) ds ''0'')) (enumerate 0 pal)). v = k"
    by auto
  from assms have "(i, pal ! i) \<in> set (enumerate 0 pal)"
    by (simp add: in_set_enumerate_eq)
  then show "(makeDigit (js_String i) ds ''0'', makeDigit (js_String i) ds ''0'')
      \<in> set (map (\<lambda>(i, entry). (makeDigit (js_String i) ds ''0'', makeDigit (js_String i) ds ''0'')) (enumerate 0 pal))"
    by force
qed

lemma js_slice_middle: "js_slice (a @ b @ c) (int (length a)) (int (length a + length b)) = b"
  by (simp add: js_slice_def Let_def)

lemma js_indexOf_first:
  "c \<notin> set b \<Longrightarrow> js_indexOf (a @ b @ c # rest) c (length a) = int (length a + length b)"
proof -
  assume "c \<notin> set b"
  then have "takeWhile (\<lambda>x. x \<noteq> c) (b @ c # rest) = b"
    by (auto simp: takeWhile_tail takeWhile_eq_all_conv)
  then show ?thesis by (simp add: js_indexOf_def Let_def)
qed


lemma not_digits: "\<not> is_digit CHR '',''" "\<not> is_digit CHR ''x''" "\<not> is_digit CHR ''p''"
  by (simp_all add: is_digit_def)

lemma digits_no_marks:
  assumes "list_all is_digit d"
  shows "CHR '','' \<notin> set d" and "d \<noteq> [] \<Longrightarrow> hd d \<noteq> CHR ''x'' \<and> hd d \<noteq> CHR ''p''"
proof -
  from assms have a: "\<forall>c \<in> set d. is_digit c" by (simp add: list_all_iff)
  with not_digits(1) show "CHR '','' \<notin> set d" by blast
  assume "d \<noteq> []"
  then have "hd d \<in> set d" by simp
  with a have "is_digit (hd d)" by blast
  with not_digits show "hd d \<noteq> CHR ''x'' \<and> hd d \<noteq> CHR ''p''" by metis
qed

text \<open>One turn of the loop on a run-length token \<open>x d n ,\<close> that ends the encoding.\<close>

lemma unravel_step_run:
  assumes dig: "list_all is_digit d" and len: "length d = digitsize st" and at: "loc st = length pre"
    and cnt: "n \<le> 2 ^ 53"
  shows "unravel_step (decimal_digits (length pal)) pal (pre @ CHR ''x'' # d @ js_String n @ '','') st =
           Inr (st\<lparr>outstr := outstr st @ concat (replicate n
                      (makeDigit (ref_String (paletteref st) d) (decimal_digits (length pal)) ''0'')),
                   loc := length (pre @ CHR ''x'' # d @ js_String n @ '','')\<rparr>)"
proof -
  let ?colors = "pre @ CHR ''x'' # d @ js_String n @ '',''"
  have ds: "digitsize st = length d" using len by simp
  have e1: "length pre + 1 = length (pre @ ''x'')"
    and e2: "length pre + 1 + length d = length (pre @ ''x'' @ d)"
    by simp_all
  have c1: "?colors = (pre @ ''x'') @ (d @ js_String n) @ CHR '','' # []"
    and c2: "?colors = (pre @ ''x'') @ d @ (js_String n @ '','')"
    and c3: "?colors = (pre @ ''x'' @ d) @ js_String n @ '',''"
    by simp_all
  have "CHR '','' \<notin> set (d @ js_String n)"
    using digits_no_marks(1) [OF dig] digits_no_marks(1) [OF js_String_digits [of n]] by simp
  then have "js_indexOf ((pre @ ''x'') @ (d @ js_String n) @ CHR '','' # []) CHR '','' (length (pre @ ''x''))
      = int (length (pre @ ''x'') + length (d @ js_String n))"
    by (rule js_indexOf_first)
  then have nix: "js_indexOf ?colors CHR '','' (length pre + 1) = int (length ?colors) - 1"
    unfolding c1 [symmetric] e1 [symmetric] by simp
  have s1: "js_slice ?colors (int (length pre + 1)) (int (length pre + 1 + length d)) = d"
    unfolding e1 by (subst c2) (rule js_slice_middle)
  have e3: "int (length ?colors) - 1 = int (length (pre @ ''x'' @ d) + length (js_String n))"
    by simp
  have s2: "js_slice ?colors (int (length pre + 1 + length d)) (int (length ?colors) - 1) = js_String n"
    unfolding e2 e3 by (subst c3) (rule js_slice_middle)
  have x: "?colors ! length pre = CHR ''x''" by simp
  have unfolded: "unravel_step (decimal_digits (length pal)) pal ?colors st =
     (case js_Number (js_slice ?colors (int (length pre + 1 + length d)) (js_indexOf ?colors CHR '','' (length pre + 1))) of
         None \<Rightarrow> Inl Unmodelled
       | Some rep \<Rightarrow>
           Inr (st\<lparr>outstr := outstr st @ concat (replicate rep (makeDigit (ref_String (paletteref st)
                              (js_slice ?colors (int (length pre + 1)) (int (length pre + 1 + length d)))) (decimal_digits (length pal)) ''0'')),
                   loc := nat (js_indexOf ?colors CHR '','' (length pre + 1) + 1)\<rparr>))"
    by (simp only: unravel_step_def Let_def at ds x simp_thms if_True)
  show ?thesis
    by (simp only: unfolded nix s1 s2 js_Number_js_String [OF cnt] option.case) simp
qed

text \<open>The loop on \<open>m\<close> literal copies of a digit group that end the encoding.\<close>

lemma unravel_loop_literals:
  assumes dig: "list_all is_digit d" and ne: "d \<noteq> []"
  shows "length d = digitsize st \<Longrightarrow> loc st = length pre \<Longrightarrow> m \<le> fuel \<Longrightarrow>
     unravel_loop fuel (decimal_digits (length pal)) pal (pre @ concat (replicate m d)) st =
       Inr (outstr st @ concat (replicate m (makeDigit (ref_String (paletteref st) d) (decimal_digits (length pal)) ''0'')))"
proof (induction m arbitrary: st pre fuel)
  case 0
  then show ?case by (simp add: unravel_loop.simps)
next
  case (Suc m)
  let ?colors = "pre @ concat (replicate (Suc m) d)"
  let ?cur = "makeDigit (ref_String (paletteref st) d) (decimal_digits (length pal)) ''0''"
  let ?st' = "st\<lparr>outstr := outstr st @ ?cur, loc := length (pre @ d)\<rparr>"
  from Suc.prems obtain fuel' where fuel: "fuel = Suc fuel'" "m \<le> fuel'"
    by (cases fuel) auto
  from ne have "0 < length d" by simp
  then have lt: "loc st < length ?colors" using Suc.prems by simp
  from ne have "?colors ! length pre = hd d"
    by (cases d) (simp_all add: nth_append)
  with digits_no_marks(2) [OF dig ne] have h: "?colors ! length pre \<noteq> CHR ''x''" "?colors ! length pre \<noteq> CHR ''p''"
    by simp_all
  have "js_slice (pre @ d @ concat (replicate m d)) (int (length pre)) (int (length pre + length d)) = d"
    by (rule js_slice_middle)
  then have sl: "js_slice ?colors (int (length pre)) (int (length pre + digitsize st)) = d"
    using Suc.prems by simp
  have step: "unravel_step (decimal_digits (length pal)) pal ?colors st = Inr ?st'"
    unfolding unravel_step_def Let_def using h sl Suc.prems by simp
  have "unravel_loop fuel' (decimal_digits (length pal)) pal ((pre @ d) @ concat (replicate m d)) ?st' =
      Inr (outstr ?st' @ concat (replicate m (makeDigit (ref_String (paletteref ?st') d) (decimal_digits (length pal)) ''0'')))"
    by (rule Suc.IH) (use Suc.prems fuel in simp_all)
  then have rest: "unravel_loop fuel' (decimal_digits (length pal)) pal ?colors ?st' = Inr (outstr st @ concat (replicate (Suc m) ?cur))"
    by simp
  show ?case
    by (subst unravel_loop.simps) (simp only: lt fuel step rest if_True nat.case sum.case)
qed

lemma chunks_replicate:
  "0 < length d \<Longrightarrow> chunks (length d) (concat (replicate n d)) = replicate n d"
proof (induction n)
  case 0
  then show ?case by (simp add: chunks.simps)
next
  case (Suc n)
  then have ne: "d \<noteq> []" by auto
  from Suc show ?case
    by (subst chunks.simps) (simp add: ne)
qed

lemma concat_replicate_mult:
  "concat (replicate n (concat (replicate k xs))) = concat (replicate (n * k) xs)"
  by (induction n) (simp_all add: replicate_add)

lemma getArray_loop_replicate:
  "js_Number d = Some i \<Longrightarrow> i < length pal \<Longrightarrow>
   getArray_loop pal (replicate m d) = Inr (concat (replicate m (entry_bytes (pal ! i))))"
  by (induction m) simp_all

lemma length_entry_bytes: "length (entry_bytes e) = 4"
  by (simp add: entry_bytes_def)

lemma length_concat_replicate: "length (concat (replicate m xs)) = m * length xs"
  by (induction m) simp_all

text \<open>The last three stages of the pipeline on \<open>n\<close> copies of the digit group of index \<open>i\<close>.\<close>

lemma pipeline_tail:
  assumes i: "i < length pal" and small: "length pal \<le> 2 ^ 53"
  defines "d \<equiv> makeDigit (js_String i) (decimal_digits (length pal)) ''0''"
  shows "spriteGetArray (decimal_digits (length pal)) pal (spriteExpand (decimal_digits (length pal)) scale (concat (replicate n d))) =
           Inr (concat (replicate (n * scale) (entry_bytes (pal ! i))))"
proof -
  note md = makeDigit_index [OF i small, folded d_def]
  from md(4) have pos: "0 < length d" by simp
  have ex: "spriteExpand (decimal_digits (length pal)) scale (concat (replicate n d)) = concat (replicate (n * scale) d)"
    unfolding spriteExpand_def md(1) [symmetric] chunks_replicate [OF pos]
    by (simp add: concat_replicate_mult)
  have "spriteGetArray (decimal_digits (length pal)) pal (concat (replicate (n * scale) d)) =
      Inr (take (length (concat (replicate (n * scale) d)) * 4 div length d)
             (concat (replicate (n * scale) (entry_bytes (pal ! i)))))"
    unfolding spriteGetArray_def md(1) [symmetric] chunks_replicate [OF pos]
    by (simp add: getArray_loop_replicate [OF md(3) i])
  also have "length (concat (replicate (n * scale) d)) * 4 div length d = n * scale * 4"
    using pos by (simp add: length_concat_replicate)
  finally show ?thesis
    by (simp add: ex length_concat_replicate length_entry_bytes)
qed


text \<open>More fuel never changes a result of the loop.\<close>

lemma unravel_loop_mono:
  "unravel_loop fuel ds pal colors st = Inr r \<Longrightarrow> fuel \<le> fuel' \<Longrightarrow> unravel_loop fuel' ds pal colors st = Inr r"
proof (induction fuel arbitrary: fuel' st)
  case 0
  then show ?case
    by (subst unravel_loop.simps, subst (asm) unravel_loop.simps) (simp split: if_splits)
next
  case (Suc fuel)
  from Suc.prems(2) obtain f where f: "fuel' = Suc f" "fuel \<le> f" by (cases fuel') auto
  show ?case
  proof (cases "loc st < length colors")
    case False
    with Suc.prems(1) show ?thesis
      by (subst unravel_loop.simps, subst (asm) unravel_loop.simps) simp
  next
    case True
    with Suc.prems(1) obtain st' where st': "unravel_step ds pal colors st = Inr st'"
      and r: "unravel_loop fuel ds pal colors st' = Inr r"
      by (subst (asm) unravel_loop.simps) (auto split: sum.splits)
    from Suc.IH [OF r f(2)] True st' f(1) show ?thesis
      by (subst unravel_loop.simps) simp
  qed
qed

lemma spriteUnravel_mono:
  "spriteUnravel fuel pal colors = Inr r \<Longrightarrow> fuel \<le> fuel' \<Longrightarrow> spriteUnravel fuel' pal colors = Inr r"
  by (auto simp: spriteUnravel_def split: sum.splits intro: unravel_loop_mono)

text \<open>
  Claim C6. For every palette whose digit size is modelled (1 to 999 entries), every
  palette index \<open>i\<close>, written as the digit group \<open>d\<close> of the default
  digit size, every count \<open>n\<close> that \<open>Number\<close> reads exactly and every scale, the encoding \<open>x d n ,\<close> and the encoding
  that writes \<open>d\<close> literally \<open>n\<close> times decode to the same pixel buffer: \<open>n\<close> times
  \<open>scale\<close> copies of the bytes of palette entry \<open>i\<close>. One turn of the loop is enough
  for the first encoding and \<open>n\<close> turns for the second. In the scenario of the
  specification, \<open>x022,1\<close> decodes to 22 transparent black pixels and one opaque red one.
\<close>

theorem run_length_decoding:
  assumes i: "i < length pal" and ds: "getDigitSize pal = Inr ds"
    and dg: "d = makeDigit (js_String i) ds ''0''" and cnt: "n \<le> 2 ^ 53"
    and f1: "1 \<le> fuel1" and f2: "n \<le> fuel2" and f3: "2 \<le> fuel3"
  shows "ProcessorBase_process fuel1 pal scale None (CHR ''x'' # d @ js_String n @ '','') =
           Inr (concat (replicate (n * scale) (entry_bytes (pal ! i)))) \<and>
         ProcessorBase_process fuel2 pal scale None (concat (replicate n d)) =
           Inr (concat (replicate (n * scale) (entry_bytes (pal ! i)))) \<and>
         ProcessorBase_process fuel3 palette3 1 None ''x022,1'' =
           Inr (concat (replicate 22 [0, 0, 0, 0]) @ [255, 0, 0, 255])"
proof -
  from ds have pal: "getDigitSize pal = Inr (decimal_digits (length pal))"
    and dsv: "ds = decimal_digits (length pal)"
    by (simp_all add: getDigitSize_def split: if_splits)
  from dg dsv have d: "d = makeDigit (js_String i) (decimal_digits (length pal)) ''0''" by simp
  have pal3: "getDigitSize palette3 = Inr 1" by code_simp
  from ds have small: "length pal \<le> 2 ^ 53"
    by (simp add: getDigitSize_def split: if_splits)
  note md = makeDigit_index [OF i small, folded d]
  let ?st = "\<lparr>paletteref = getPaletteReferenceStarting (decimal_digits (length pal)) pal,
              digitsize = decimal_digits (length pal), outstr = [], loc = 0\<rparr>"
  have ref: "makeDigit (ref_String (getPaletteReferenceStarting (decimal_digits (length pal)) pal) d) (decimal_digits (length pal)) ''0'' = d"
    using starting_reference [OF i, of "decimal_digits (length pal)"] md(1)
    by (simp add: ref_String_def d [symmetric]) (simp add: makeDigit_def stringOf_def)
  from f1 obtain fuel1' where fuel1: "fuel1 = Suc fuel1'" by (cases fuel1) auto
  have "unravel_step (decimal_digits (length pal)) pal ([] @ CHR ''x'' # d @ js_String n @ '','') ?st =
      Inr (?st\<lparr>outstr := outstr ?st @ concat (replicate n
                  (makeDigit (ref_String (paletteref ?st) d) (decimal_digits (length pal)) ''0'')),
               loc := length ([] @ CHR ''x'' # d @ js_String n @ '','')\<rparr>)"
    by (rule unravel_step_run) (use md cnt in simp_all)
  then have "unravel_loop fuel1 (decimal_digits (length pal)) pal (CHR ''x'' # d @ js_String n @ '','') ?st = Inr (concat (replicate n d))"
    by (simp add: fuel1 ref unravel_loop.simps)
  then have u1: "spriteUnravel fuel1 pal (CHR ''x'' # d @ js_String n @ '','') = Inr (concat (replicate n d))"
    by (simp add: spriteUnravel_def pal)
  have "unravel_loop fuel2 (decimal_digits (length pal)) pal ([] @ concat (replicate n d)) ?st =
      Inr (outstr ?st @ concat (replicate n (makeDigit (ref_String (paletteref ?st) d) (decimal_digits (length pal)) ''0'')))"
    by (rule unravel_loop_literals) (use md f2 in simp_all)
  then have u2: "spriteUnravel fuel2 pal (concat (replicate n d)) = Inr (concat (replicate n d))"
    by (simp add: spriteUnravel_def pal ref)
  have "spriteUnravel 2 palette3 ''x022,1'' = Inr (concat (replicate 22 ''0'') @ ''1'')"
    by code_simp
  then have "spriteUnravel fuel3 palette3 ''x022,1'' = Inr (concat (replicate 22 ''0'') @ ''1'')"
    using f3 by (rule spriteUnravel_mono)
  moreover have "spriteGetArray 1 palette3 (spriteExpand 1 1 (concat (replicate 22 ''0'') @ ''1'')) =
      Inr (concat (replicate 22 [0, 0, 0, 0]) @ [255, 0, 0, 255])"
    by code_simp
  ultimately have u3: "ProcessorBase_process fuel3 palette3 1 None ''x022,1'' =
      Inr (concat (replicate 22 [0, 0, 0, 0]) @ [255, 0, 0, 255])"
    by (simp add: ProcessorBase_process_def spriteApplyFilter_def pal3)
  from u1 u2 u3 pipeline_tail [OF i small, folded d] show ?thesis
    by (simp add: ProcessorBase_process_def spriteApplyFilter_def pal)
qed

theorem run_length_decoding_witness:
  "ProcessorBase_process 1 palette3 2 None ''x13,'' = Inr (concat (replicate 6 [255, 0, 0, 255])) \<and>
   ProcessorBase_process 3 palette3 2 None ''111'' = Inr (concat (replicate 6 [255, 0, 0, 255])) \<and>
   ProcessorBase_process 2 palette3 1 None ''x022,1'' = Inr (concat (replicate 22 [0, 0, 0, 0]) @ [255, 0, 0, 255])"
proof -
  have i: "1 < length palette3" by (simp add: palette3_def)
  have ds: "getDigitSize palette3 = Inr 1" by code_simp
  have d: "''1'' = makeDigit (js_String 1) 1 ''0''" by code_simp
  have f: "(3 :: nat) \<le> 2 ^ 53" "1 \<le> (1 :: nat)" "(3 :: nat) \<le> 3" "2 \<le> (2 :: nat)" by simp_all
  have n: "js_String 3 = ''3''" by code_simp
  have e: "entry_bytes (palette3 ! Suc 0) = [255, 0, 0, 255]" by code_simp
  have r: "replicate 3 CHR ''1'' = ''111''" by code_simp
  from run_length_decoding [OF i ds d f, where scale = 2] show ?thesis
    by (simp add: n e r)
qed


subsection \<open>Palette switches\<close>

lemmas js_string_eval = js_indexOf_def js_slice_def Let_def

lemma reference_of_one:
  "getPaletteReference [''''] = Inr (make_reference [(''0'', ''0'')])"
  "getPaletteReference [''0''] = Inr (make_reference [(''0'', ''0'')])"
  by (simp_all add: getPaletteReference_def getDigitSize_def decimal_digits_def js_String.simps
        makeDigit_def stringOf_def digit_char_def)

lemma stuck_step: "unravel_step 1 palette3 ''p[0]p[1]1'' stuck_state = Inr stuck_state"
  by (simp add: unravel_step_def stuck_state_def js_string_eval reference_of_one)

lemma stuck_loop: "unravel_loop fuel 1 palette3 ''p[0]p[1]1'' stuck_state = Inl NoResult"
proof (induction fuel)
  case 0
  show ?case by (subst unravel_loop.simps) (simp add: stuck_state_def)
next
  case (Suc fuel)
  have "loc stuck_state < length ''p[0]p[1]1''" by (simp add: stuck_state_def)
  with Suc stuck_step show ?case by (subst unravel_loop.simps) simp
qed

lemma two_blocks_first:
  "unravel_step 1 palette3 ''p[0]p[1]1'' (unravel_start 1 palette3) =
     Inr \<lparr>paletteref = make_reference [(''0'', ''0'')], digitsize = 1, outstr = [], loc = 4\<rparr>"
  by (simp add: unravel_step_def unravel_start_def js_string_eval reference_of_one)

lemma two_blocks_second:
  "unravel_step 1 palette3 ''p[0]p[1]1'' \<lparr>paletteref = make_reference [(''0'', ''0'')], digitsize = 1, outstr = [], loc = 4\<rparr>
     = Inr stuck_state"
  by (simp add: unravel_step_def stuck_state_def js_string_eval reference_of_one)

lemma two_blocks_diverge: "spriteUnravel fuel palette3 ''p[0]p[1]1'' = Inl NoResult"
proof -
  have pal: "getDigitSize palette3 = Inr 1" by code_simp
  have l0: "loc (unravel_start 1 palette3) < length ''p[0]p[1]1''" by (simp add: unravel_start_def)
  show ?thesis
  proof (cases fuel)
    case 0
    with l0 show ?thesis
      by (simp add: spriteUnravel_def pal unravel_start_def [symmetric]) (subst unravel_loop.simps, simp)
  next
    case (Suc f1)
    show ?thesis
    proof (cases f1)
      case 0
      with Suc l0 two_blocks_first show ?thesis
        by (simp add: spriteUnravel_def pal unravel_start_def [symmetric])
           (subst unravel_loop.simps, simp, subst unravel_loop.simps, simp)
    next
      case f2: (Suc f2)
      with Suc l0 two_blocks_first two_blocks_second stuck_loop [of f2] show ?thesis
        by (simp add: spriteUnravel_def pal unravel_start_def [symmetric])
           (subst unravel_loop.simps, simp, subst unravel_loop.simps, simp)
    qed
  qed
qed

text \<open>
  Claim C8, evaluated on the code (the claim holds of neither branch of the \<open>p\<close> token).
  At the start of an encoding the token \<open>1\<close> decodes to the digit \<open>1\<close>. After a reset
  \<open>p\<close> the same token decodes to \<open>255,0,0,255\<close>: the reset builds the reference with
  \<open>getPaletteReference(this.paletteDefault)\<close>, which maps a digit to the text of its
  colour, where the start of the decoding uses \<open>getPaletteReferenceStarting\<close>. With a
  second \<open>p[...]\<close> block the loop never ends, whatever the fuel: \<open>colors.indexOf("]")\<close>
  finds the bracket of the first block again and sets \<open>loc\<close> back behind it.
\<close>

theorem palette_switch_failing_inputs:
  "spriteUnravel 1 palette3 ''1'' = Inr ''1'' \<and>
   spriteUnravel 3 palette3 ''1p1'' = Inr ''1255,0,0,255'' \<and>
   (\<forall>fuel. spriteUnravel fuel palette3 ''p[0]p[1]1'' = Inl NoResult)"
proof -
  have "spriteUnravel 1 palette3 ''1'' = Inr ''1''" by code_simp
  moreover have "spriteUnravel 3 palette3 ''1p1'' = Inr ''1255,0,0,255''" by code_simp
  ultimately show ?thesis using two_blocks_diverge by simp
qed

subsection \<open>Encoding\<close>

lemma closest_loop_Some: "\<exists>b'. closest_loop xs rgba (Some b) = Some b'"
proof (induction xs arbitrary: b)
  case Nil
  then show ?case by simp
next
  case (Cons x xs)
  obtain i entry where x: "x = (i, entry)" by (cases x)
  obtain bd bi where b: "b = (bd, bi)" by (cases b)
  show ?case
    using Cons.IH [of "(arrayDifference entry rgba, i)"] Cons.IH [of "(bd, bi)"]
    by (simp add: x b Let_def)
qed

lemma getClosestInPalette_defined: "pal \<noteq> [] \<Longrightarrow> \<exists>i. getClosestInPalette pal rgba = Some i"
proof -
  assume "pal \<noteq> []"
  then have "rev (enumerate 0 pal) \<noteq> []" by (cases pal) simp_all
  then obtain x xs where xs: "rev (enumerate 0 pal) = x # xs" by (cases "rev (enumerate 0 pal)") auto
  obtain i entry where x: "x = (i, entry)" by (cases x)
  from closest_loop_Some [of xs rgba "(arrayDifference entry rgba, i)"]
  show ?thesis by (auto simp: getClosestInPalette_def xs x Let_def)
qed

lemma pixels_of_defined:
  "pal \<noteq> [] \<Longrightarrow> \<exists>pixels. those (pixels_of pal data) = Some pixels \<and> (4 \<le> length data \<longrightarrow> pixels \<noteq> [])"
proof (induction pal data rule: pixels_of.induct)
  case (1 pal r g b a data)
  then obtain pixels where "those (pixels_of pal data) = Some pixels" by auto
  moreover from 1 obtain i where "getClosestInPalette pal [r, g, b, a] = Some i"
    using getClosestInPalette_defined by blast
  ultimately show ?case by simp
qed auto

lemma closest_loop_bound:
  assumes "\<forall>x \<in> set xs. fst x < n" and "case best of None \<Rightarrow> True | Some b \<Rightarrow> snd b < n"
  shows "case closest_loop xs rgba best of None \<Rightarrow> True | Some b \<Rightarrow> snd b < n"
  using assms
proof (induction xs arbitrary: best)
  case Nil
  then show ?case by simp
next
  case (Cons x xs)
  obtain i entry where x: "x = (i, entry)" by (cases x)
  from Cons.prems x have i: "i < n" and rest: "\<forall>x \<in> set xs. fst x < n" by simp_all
  show ?case
  proof (cases best)
    case None
    have "case closest_loop xs rgba (Some (arrayDifference entry rgba, i)) of None \<Rightarrow> True | Some b \<Rightarrow> snd b < n"
      by (rule Cons.IH [OF rest]) (simp add: i)
    with None show ?thesis by (simp add: x Let_def)
  next
    case (Some b)
    obtain bd bi where b: "b = (bd, bi)" by (cases b)
    show ?thesis
    proof (cases "arrayDifference entry rgba < bd")
      case True
      have "case closest_loop xs rgba (Some (arrayDifference entry rgba, i)) of None \<Rightarrow> True | Some b \<Rightarrow> snd b < n"
        by (rule Cons.IH [OF rest]) (simp add: i)
      with Some b True show ?thesis by (simp add: x Let_def)
    next
      case False
      have "case closest_loop xs rgba (Some (bd, bi)) of None \<Rightarrow> True | Some b \<Rightarrow> snd b < n"
        by (rule Cons.IH [OF rest]) (use Cons.prems(2) Some b in simp)
      with Some b False show ?thesis by (simp add: x Let_def)
    qed
  qed
qed

lemma getClosestInPalette_bound: "getClosestInPalette pal rgba = Some i \<Longrightarrow> i < length pal"
proof -
  assume c: "getClosestInPalette pal rgba = Some i"
  have "\<forall>x \<in> set (rev (enumerate 0 pal)). fst x < length pal"
    by (auto simp add: in_set_enumerate_eq)
  then have "case closest_loop (rev (enumerate 0 pal)) rgba None of None \<Rightarrow> True | Some b \<Rightarrow> snd b < length pal"
    by (rule closest_loop_bound) simp
  with c show ?thesis by (auto simp add: getClosestInPalette_def)
qed

lemma pixels_of_bound:
  "those (pixels_of pal data) = Some pixels \<Longrightarrow> \<forall>p \<in> set pixels. p < length pal"
proof (induction pal data arbitrary: pixels rule: pixels_of.induct)
  case (1 pal r g b a data)
  then show ?case
    by (auto simp add: getClosestInPalette_bound split: option.splits)
qed auto

lemma working_palette_small:
  assumes "\<forall>p \<in> set pixels. p < n"
  shows "length (sort (remdups pixels)) \<le> n"
proof -
  have "length (sort (remdups pixels)) = card (set pixels)"
    by (simp add: length_remdups_card_conv)
  also from assms have "set pixels \<subseteq> {..<n}" by auto
  then have "card (set pixels) \<le> card {..<n}" by (intro card_mono) simp_all
  finally show ?thesis by simp
qed

lemma imageCombinePixels_throws:
  "working \<noteq> [] \<Longrightarrow> imageCombinePixels (working, numbers, digitsz) = Inl TypeError"
  by (cases working) (simp_all add: imageCombinePixels_def Let_def makeSizedDigit_def)

lemma encode_throws:
  assumes "pal \<noteq> []" and "length pal < 1000" and "data \<noteq> []" and "length data mod 4 = 0"
  shows "encode pal data = Inl TypeError"
proof -
  from assms(3,4) have "4 \<le> length data" by (cases data) (auto simp: mod_eq_0_iff_dvd dest: dvd_imp_le)
  with pixels_of_defined [OF assms(1), of data] obtain pixels
    where p: "those (pixels_of pal data) = Some pixels" "pixels \<noteq> []" by auto
  then have "set (sort (remdups pixels)) \<noteq> {}" by simp
  then have "sort (remdups pixels) \<noteq> []" by (metis set_empty)
  then have ne: "map js_String (sort (remdups pixels)) \<noteq> []" by simp
  from working_palette_small [OF pixels_of_bound [OF p(1)]] assms(2)
  have "length (map js_String (sort (remdups pixels))) < 1000" by simp
  with ne have "getDigitSize (map js_String (sort (remdups pixels)))
      = Inr (decimal_digits (length (map js_String (sort (remdups pixels)))))"
    by (simp add: getDigitSize_def)
  with ne have "\<exists>numbers digitsz. imageMapPalette pixels = Inr (map js_String (sort (remdups pixels)), numbers, digitsz)"
    by (simp add: imageMapPalette_def Let_def)
  then obtain numbers digitsz where
    "imageMapPalette pixels = Inr (map js_String (sort (remdups pixels)), numbers, digitsz)" by blast
  with p(1) assms(4) ne show ?thesis
    by (simp add: encode_def imageGetPixels_def imageCombinePixels_throws)
qed

text \<open>
  Claim C2, evaluated on the code. For the image of one opaque red pixel, a colour of
  the palette, \<open>imageGetPixels\<close> and \<open>imageMapPalette\<close> give the working palette
  \<open>["1"]\<close>, and \<open>imageCombinePixels\<close> throws while it builds the header: \<open>encode\<close>
  returns no text to decode. By \<open>encode_throws\<close> the same holds of every image with
  at least one pixel, for every palette of 1 to 999 colours.
\<close>

theorem encode_failing_input:
  "encode palette3 [255, 0, 0, 255] = Inl TypeError \<and>
   imageGetPixels palette3 [255, 0, 0, 255] = Inr [1] \<and>
   imageMapPalette [1] = Inr ([''1''], [0], 1)"
  by code_simp

subsection \<open>Missing sprites\<close>

lemma map_of_obj_set: "map_of (obj_set kvs k v) k' = (if k' = k then Some v else map_of kvs k')"
  by (induction kvs) auto

lemma get_prop_Obj_truthy:
  "truthy (get_prop v ''multiple'') \<Longrightarrow> \<exists>members. v = Obj members"
  by (cases v) (auto simp: canonical_index_def is_digit_def split: option.splits if_splits)

lemma processSpriteMultiple_multiple:
  assumes "processSpriteMultiple pr members key attrs = Inr (v, pr')"
  shows "get_prop v ''multiple'' = get_prop (Obj members) ''multiple''"
  using assms
  by (auto simp: processSpriteMultiple_def map_of_obj_set split: jsval.splits sum.splits option.splits)

lemmas decode_eval = decode_def rendr_of_def filr_eval processSpriteMultiple_def

text \<open>
  Claim C9, as amended. \<open>decode\<close> recognises a SpriteMultiple by a truthy member
  \<open>multiple\<close>. When the lookup of the key ends on a value that is neither a
  \<open>Uint8ClampedArray\<close> nor an object with a truthy member \<open>multiple\<close> (an unknown key,
  which ends on the deepest object reached, or a dead end on an inner node that has no
  class named \<open>multiple\<close>), \<open>decode\<close> throws an \<open>Error\<close>; and every value \<open>decode\<close>
  returns is a \<open>Uint8ClampedArray\<close> or an object with a truthy member \<open>multiple\<close>.
\<close>

theorem decode_missing_sprite:
  assumes lookup: "get (BaseFiler pr) key = Inr (r, filer)"
  shows "((\<forall>bytes. r \<noteq> Sprite bytes) \<and> \<not> truthy (get_prop r ''multiple'')
            \<longrightarrow> (\<exists>msg. decode pr key attrs = Inl (Error msg))) \<and>
         (\<forall>v pr'. decode pr key attrs = Inr (v, pr')
            \<longrightarrow> (\<exists>bytes. v = Sprite bytes) \<or> truthy (get_prop v ''multiple''))"
proof (intro conjI impI allI)
  assume "(\<forall>bytes. r \<noteq> Sprite bytes) \<and> \<not> truthy (get_prop r ''multiple'')"
  with lookup show "\<exists>msg. decode pr key attrs = Inl (Error msg)"
    by (cases r) (simp_all add: decode_def Let_def)
next
  fix v pr'
  assume d: "decode pr key attrs = Inr (v, pr')"
  show "(\<exists>bytes. v = Sprite bytes) \<or> truthy (get_prop v ''multiple'')"
  proof (cases "truthy (get_prop r ''multiple'')")
    case True
    then obtain members where r: "r = Obj members" using get_prop_Obj_truthy by blast
    show ?thesis
    proof (cases "truthy (get_prop r ''processed'')")
      case p: True
      with True d lookup r have "v = r" by (simp add: decode_def Let_def)
      with True show ?thesis by simp
    next
      case False
      with True d lookup r have "processSpriteMultiple (pr\<lparr>BaseFiler := filer\<rparr>) members key attrs = Inr (v, pr')"
        by (simp add: decode_def Let_def)
      from processSpriteMultiple_multiple [OF this] True r show ?thesis by simp
    qed
  next
    case False
    with d lookup show ?thesis
      by (cases r) (auto simp: decode_def Let_def split: sum.splits if_splits)
  qed
qed

theorem decode_missing_sprite_witness:
  "(\<exists>msg. decode (rendr_of (Obj [(''a'', Obj [(''b'', Sprite [0, 0, 0, 0])])])) ''zzz'' att11 = Inl (Error msg)) \<and>
   (\<exists>msg. decode (rendr_of (Obj [(''a'', Obj [(''b'', Sprite [0, 0, 0, 0])])])) ''a'' att11 = Inl (Error msg))"
proof -
  let ?lib = "Obj [(''a'', Obj [(''b'', Sprite [0, 0, 0, 0])])]"
  have 1: "get (BaseFiler (rendr_of ?lib)) ''zzz'' =
      Inr (?lib, \<lparr>library = ?lib, normal = ''normal'', cache = [''zzz'' \<mapsto> ?lib]\<rparr>)"
    by (simp add: rendr_of_def filr_eval)
  have 2: "get (BaseFiler (rendr_of ?lib)) ''a'' =
      Inr (Obj [(''b'', Sprite [0, 0, 0, 0])],
           \<lparr>library = ?lib, normal = ''normal'', cache = [''a'' \<mapsto> Obj [(''b'', Sprite [0, 0, 0, 0])]]\<rparr>)"
    by (simp add: rendr_of_def filr_eval)
  from decode_missing_sprite [OF 1, of att11] decode_missing_sprite [OF 2, of att11]
  show ?thesis by simp
qed

text \<open>
  The claim C9 as stated fails for an inner node with a class named \<open>multiple\<close>: the
  raw library \<open>{a: {multiple: "0"}}\<close> is parsed to \<open>{a: {multiple: sprite}}\<close>, the key
  \<open>a\<close> ends on the inner node, and \<open>decode\<close> returns that node, marked processed: not
  a decoded sprite.
\<close>

theorem decode_missing_sprite_counterexample:
  "map_sum id fst (libraryParse 1 palette3 1 [(''a'', RawObject [(''multiple'', RawString ''0'')])] [] parse_start)
     = Inr [(''a'', Obj [(''multiple'', Sprite [0, 0, 0, 0])])] \<and>
   map_sum id fst (decode (rendr_of (Obj [(''a'', Obj [(''multiple'', Sprite [0, 0, 0, 0])])])) ''a'' att11)
     = Inr (Obj [(''multiple'', Sprite [0, 0, 0, 0]), (''processed'', JBool True)]) \<and>
   \<not> is_decoded_sprite (Obj [(''multiple'', Sprite [0, 0, 0, 0]), (''processed'', JBool True)])"
proof -
  have "ProcessorBase_process 1 palette3 1 None ''0'' = Inr [0, 0, 0, 0]" by code_simp
  then have "map_sum id fst (libraryParse 1 palette3 1 [(''a'', RawObject [(''multiple'', RawString ''0'')])] [] parse_start)
     = Inr [(''a'', Obj [(''multiple'', Sprite [0, 0, 0, 0])])]"
    by (simp add: parse_start_def ProcessorBase_cached_def obj_set_first_def)
  moreover have "map_sum id fst (decode (rendr_of (Obj [(''a'', Obj [(''multiple'', Sprite [0, 0, 0, 0])])])) ''a'' att11)
     = Inr (Obj [(''multiple'', Sprite [0, 0, 0, 0]), (''processed'', JBool True)])"
    by (simp add: decode_eval)
  ultimately show ?thesis by simp
qed

subsection \<open>Shifting the grid\<close>

lemma to_int32_id: "\<bar>x\<bar> < 2147483648 \<Longrightarrow> to_int32 x = x"
  by (simp add: to_int32_def)

lemma adjustOffsets_still:
  assumes "\<bar>offsetX g\<bar> \<le> quadrantWidth g" and "\<bar>offsetY g\<bar> \<le> quadrantHeight g"
  shows "adjustOffsets g = Inr g"
proof -
  from assms have "adjust_left g = Inr g" "adjust_right g = Inr g" "adjust_up g = Inr g" "adjust_down g = Inr g"
    by (auto simp add: adjust_left.simps [of g] adjust_right.simps [of g] adjust_up.simps [of g] adjust_down.simps [of g])
  then show ?thesis by (simp add: adjustOffsets_def)
qed

lemma shiftQuadrant_comm:
  "shiftQuadrant (shiftQuadrant q dx dy) ex ey = shiftQuadrant (shiftQuadrant q ex ey) dx dy"
  by (simp add: shiftQuadrant_def add.commute add.left_commute)

lemma upd_comm:
  "upd ex ey i (upd dx dy j st) = upd dx dy j (upd ex ey i st)"
proof (cases "i = j")
  case True
  then show ?thesis
    by (cases "j < length st") (simp_all add: upd_def shiftQuadrant_comm list_update_beyond)
next
  case False
  then show ?thesis
    by (simp add: upd_def list_update_swap)
qed

lemma fold_upd_comm:
  "upd ex ey i (fold (upd dx dy) ids st) = fold (upd dx dy) ids (upd ex ey i st)"
  by (induction ids arbitrary: st) (simp_all add: upd_comm)

lemma unflag_back: "unflag (shiftQuadrant (shiftQuadrant q dx dy) (- dx) (- dy)) = unflag q"
  by (simp add: unflag_def shiftQuadrant_def)

lemma unflag_shiftQuadrant: "unflag (shiftQuadrant q dx dy) = unflag (shiftQuadrant (unflag q) dx dy)"
  by (simp add: unflag_def shiftQuadrant_def)

lemma map_unflag_upd_back: "map unflag (upd (- dx) (- dy) i (upd dx dy i st)) = map unflag st"
  by (cases "i < length st") (simp_all add: upd_def map_update unflag_back list_update_beyond list_update_same_conv)

lemma map_unflag_fold_cong:
  "map unflag st = map unflag st' \<Longrightarrow> map unflag (fold (upd dx dy) ids st) = map unflag (fold (upd dx dy) ids st')"
proof (induction ids arbitrary: st st')
  case Nil
  then show ?case by simp
next
  case (Cons i ids)
  from Cons.prems have len: "length st = length st'" by (rule map_eq_imp_length_eq)
  have "map unflag (upd dx dy i st) = map unflag (upd dx dy i st')"
  proof (cases "i < length st")
    case True
    with Cons.prems len have "unflag (st ! i) = unflag (st' ! i)" by (metis nth_map)
    then have e: "unflag (shiftQuadrant (st ! i) dx dy) = unflag (shiftQuadrant (st' ! i) dx dy)"
      by (metis unflag_shiftQuadrant)
    have "map unflag (upd dx dy i st) = (map unflag st)[i := unflag (shiftQuadrant (st ! i) dx dy)]"
      by (simp add: upd_def map_update)
    also have "\<dots> = (map unflag st')[i := unflag (shiftQuadrant (st' ! i) dx dy)]"
      by (simp only: Cons.prems e)
    also have "\<dots> = map unflag (upd dx dy i st')"
      by (simp add: upd_def map_update)
    finally show ?thesis .
  next
    case False
    with len have "upd dx dy i st = st" "upd dx dy i st' = st'"
      by (simp_all add: upd_def list_update_beyond)
    then show ?thesis by (simp only: Cons.prems)
  qed
  from Cons.IH [OF this] show ?case by simp
qed

lemma round_trip_bounds:
  "map unflag (fold (upd (- dx) (- dy)) ids (fold (upd dx dy) ids st)) = map unflag st"
proof (induction ids arbitrary: st)
  case Nil
  then show ?case by simp
next
  case (Cons i ids)
  have "map unflag (fold (upd (- dx) (- dy)) (i # ids) (fold (upd dx dy) (i # ids) st))
      = map unflag (fold (upd (- dx) (- dy)) ids (fold (upd dx dy) ids (upd (- dx) (- dy) i (upd dx dy i st))))"
    by (simp add: fold_upd_comm)
  also have "\<dots> = map unflag (upd (- dx) (- dy) i (upd dx dy i st))"
    by (rule Cons.IH)
  also have "\<dots> = map unflag st"
    by (rule map_unflag_upd_back)
  finally show ?case .
qed

lemma shift_containers_moved:
  "n \<le> int (length cs) \<Longrightarrow> shift_containers n dx dy cs = Inr (moved n dx dy cs)"
  by (simp add: shift_containers_def moved_def)

lemma length_moved [simp]: "length (moved n dx dy cs) = length cs"
  by (simp add: moved_def)

lemma moved_nth:
  assumes "i < length cs"
  shows "moved n dx dy cs ! i =
     (if i < nat n then (cs ! i)\<lparr>c_left := c_left (cs ! i) + dx, c_top := c_top (cs ! i) + dy\<rparr> else cs ! i)"
proof (cases "i < nat n")
  case True
  with assms have "i < length (take (nat n) cs)" by simp
  then have "moved n dx dy cs ! i = map (\<lambda>c. c\<lparr>c_left := c_left c + dx, c_top := c_top c + dy\<rparr>) (take (nat n) cs) ! i"
    unfolding moved_def by (simp only: nth_append length_map if_True)
  also have "\<dots> = (\<lambda>c. c\<lparr>c_left := c_left c + dx, c_top := c_top c + dy\<rparr>) (take (nat n) cs ! i)"
    using \<open>i < length (take (nat n) cs)\<close> by (rule nth_map)
  finally show ?thesis using True by simp
next
  case False
  then have "nat n \<le> i" by simp
  with assms have len: "length (take (nat n) cs) = nat n" by simp
  have "moved n dx dy cs ! i = drop (nat n) cs ! (i - nat n)"
    unfolding moved_def using False by (simp only: nth_append length_map len if_False)
  also have "\<dots> = cs ! i"
    using \<open>nat n \<le> i\<close> assms by simp
  finally show ?thesis using False by simp
qed

lemma moved_quadrants [simp]:
  "i < length cs \<Longrightarrow> c_quadrants (moved n dx dy cs ! i) = c_quadrants (cs ! i)"
  by (simp add: moved_nth)

lemma moved_back:
  assumes "n \<le> int (length cs)"
  shows "moved n (- dx) (- dy) (moved n dx dy cs) = cs"
proof -
  from assms have "min (length cs) (nat n) = nat n" by simp
  then have "moved n (- dx) (- dy) (moved n dx dy cs) = take (nat n) cs @ drop (nat n) cs"
    by (simp add: moved_def o_def)
  then show ?thesis by simp
qed

lemma ref_in_moved [simp]: "ref_in (moved k dx dy rows) n rc = ref_in rows n rc"
proof (cases "fst rc < length rows")
  case True
  then show ?thesis by (simp add: ref_in_def)
next
  case False
  then show ?thesis by (simp add: ref_in_def)
qed

lemma ref_id_moved: "ref_in rows n rc \<Longrightarrow> ref_id (moved k dx dy rows) rc = ref_id rows rc"
  by (simp add: ref_in_def ref_id_def)

lemma ref_ids_moved:
  "list_all (ref_in rows n) cells \<Longrightarrow> map (ref_id (moved k dx dy rows)) cells = map (ref_id rows) cells"
  by (induction cells) (auto simp add: ref_id_moved)

lemma length_fold_upd [simp]: "length (fold (upd dx dy) ids st) = length st"
  by (induction ids arbitrary: st) (simp_all add: upd_def)

lemma fold_throw_cells:
  assumes "list_all (ref_in (quadrantRows g) n) cells" and "length st = n"
  shows "fold_throw (\<lambda>(row, col) st. case cell_ref g row col of Inl e \<Rightarrow> Inl e
                                      | Inr ref \<Rightarrow> with_quadrant ref (\<lambda>q. shiftQuadrant q dx dy) st) cells st
         = Inr (fold (upd dx dy) (map (ref_id (quadrantRows g)) cells) st)"
    (is "fold_throw ?F cells st = _")
  using assms
proof (induction cells arbitrary: st)
  case Nil
  then show ?case by simp
next
  case (Cons rc cells)
  obtain row col where rc: "rc = (row, col)" by (cases rc)
  from Cons.prems(1) have "ref_in (quadrantRows g) n rc" by simp
  then obtain i where i: "row < length (quadrantRows g)"
    "nth_opt (c_quadrants (quadrantRows g ! row)) col = Some i" "i < n"
    by (auto simp add: rc ref_in_def split: option.splits)
  from Cons.prems have rest: "list_all (ref_in (quadrantRows g) n) cells"
    by simp
  have len: "length (upd dx dy i st) = n" using Cons.prems(2) by (simp add: upd_def)
  have step: "?F rc st = Inr (upd dx dy i st)"
    using i Cons.prems(2) by (simp add: rc cell_ref_def with_quadrant_def upd_def)
  have rid: "ref_id (quadrantRows g) rc = i"
    using i by (simp add: rc ref_id_def)
  have "fold_throw ?F (rc # cells) st = fold_throw ?F cells (upd dx dy i st)"
    using step by simp
  also have "\<dots> = Inr (fold (upd dx dy) (map (ref_id (quadrantRows g)) cells) (upd dx dy i st))"
    by (rule Cons.IH [OF rest len])
  also have "\<dots> = Inr (fold (upd dx dy) (map (ref_id (quadrantRows g)) (rc # cells)) st)"
    using rid by simp
  finally show ?case .
qed

lemma ref_in_moved_fun: "ref_in (moved k dx dy rows) n = ref_in rows n"
  by (rule ext) simp

lemma shiftQuadrants_still:
  assumes dx: "\<bar>dx\<bar> < 2147483648" and dy: "\<bar>dy\<bar> < 2147483648"
    and ox: "\<bar>offsetX g + dx\<bar> \<le> quadrantWidth g" and oy: "\<bar>offsetY g + dy\<bar> \<le> quadrantHeight g"
    and nr: "numRows g \<le> int (length (quadrantRows g))"
    and nc: "numCols g \<le> int (length (quadrantCols g))"
    and cv: "cells_valid g"
  shows "shiftQuadrants dx dy g =
     Inr (g\<lparr>offsetX := offsetX g + dx, offsetY := offsetY g + dy,
            k_top := k_top g + dy, k_right := k_right g + dx,
            k_bottom := k_bottom g + dy, k_left := k_left g + dx,
            quadrantRows := moved (numRows g) dx dy (quadrantRows g),
            quadrantCols := moved (numCols g) dx dy (quadrantCols g),
            store := fold (upd dx dy) (map (ref_id (quadrantRows g)) (all_cells g)) (store g)\<rparr>)"
proof -
  define g1 where "g1 = g\<lparr>offsetX := offsetX g + dx, offsetY := offsetY g + dy,
            k_top := k_top g + dy, k_right := k_right g + dx,
            k_bottom := k_bottom g + dy, k_left := k_left g + dx\<rparr>"
  define g2 where "g2 = g1\<lparr>quadrantRows := moved (numRows g) dx dy (quadrantRows g),
                             quadrantCols := moved (numCols g) dx dy (quadrantCols g)\<rparr>"
  define st where "st = fold (upd dx dy) (map (ref_id (quadrantRows g)) (all_cells g)) (store g)"
  have rows: "shift_containers (numRows g1) dx dy (quadrantRows g1) = Inr (moved (numRows g) dx dy (quadrantRows g))"
    using nr by (simp add: g1_def shift_containers_moved)
  have cols: "shift_containers (numCols g1) dx dy (quadrantCols g1) = Inr (moved (numCols g) dx dy (quadrantCols g))"
    using nc by (simp add: g1_def shift_containers_moved)
  have cells: "all_cells g2 = all_cells g"
    by (simp add: g2_def g1_def all_cells_def)
  have r2: "quadrantRows g2 = moved (numRows g) dx dy (quadrantRows g)" and s2: "store g2 = store g"
    by (simp_all add: g2_def g1_def)
  have valid: "list_all (ref_in (quadrantRows g2) (length (store g))) (all_cells g2)"
    using cv by (simp add: cells_valid_def cells r2 ref_in_moved_fun)
  have ids: "map (ref_id (quadrantRows g2)) (all_cells g2) = map (ref_id (quadrantRows g)) (all_cells g)"
    using cv unfolding cells r2 cells_valid_def by (rule ref_ids_moved)
  have loop: "fold_throw
                 (\<lambda>(row, col) st.
                    case cell_ref g2 row col of
                      Inl e \<Rightarrow> Inl e
                    | Inr ref \<Rightarrow> with_quadrant ref (\<lambda>q. shiftQuadrant q dx dy) st)
                 (all_cells g2) (store g2) = Inr st"
    unfolding st_def ids [symmetric] s2 by (rule fold_throw_cells [OF valid refl])
  have adj: "adjustOffsets (g2\<lparr>store := st\<rparr>) = Inr (g2\<lparr>store := st\<rparr>)"
    by (rule adjustOffsets_still) (simp_all add: g2_def g1_def ox oy)
  have "shiftQuadrants dx dy g = Inr (g2\<lparr>store := st\<rparr>)"
    unfolding shiftQuadrants_def Let_def to_int32_id [OF dx] to_int32_id [OF dy] g1_def [symmetric]
    by (simp only: rows cols sum.case g2_def [symmetric] loop adj)
  then show ?thesis
    by (simp add: g2_def g1_def st_def)
qed

lemma bounds_of_unflag:
  assumes "map unflag st = map unflag st'"
  shows "bounds_of st ref = bounds_of st' ref"
proof (cases ref)
  case None
  then show ?thesis by (simp add: bounds_of_def)
next
  case (Some i)
  from assms have len: "length st = length st'" by (rule map_eq_imp_length_eq)
  show ?thesis
  proof (cases "i < length st")
    case True
    with assms len have "unflag (st ! i) = unflag (st' ! i)" by (metis nth_map)
    then have "q_top (st ! i) = q_top (st' ! i) \<and> q_right (st ! i) = q_right (st' ! i) \<and>
               q_bottom (st ! i) = q_bottom (st' ! i) \<and> q_left (st ! i) = q_left (st' ! i)"
      unfolding unflag_def by (metis quadrant.select_convs(1-4) quadrant.surjective quadrant.update_convs(5))
    with True len Some show ?thesis by (simp add: bounds_of_def)
  next
    case False
    with len Some show ?thesis by (simp add: bounds_of_def)
  qed
qed

text \<open>
  C3, as the code has it. A shift and the opposite shift give back the grid, with the
  bounds of every cell, the counts of rows and columns and the containers as they were
  (the store is the old one up to the \<open>changed\<close> flags, which the shifts set), when
  the accumulated offset stays within one quadrant width and height before and after the
  first shift, so that \<open>adjustOffsets\<close> moves no row and no column. The grid is one
  whose containers hold at least \<open>numRows\<close> rows and \<open>numCols\<close> columns and whose
  cells all refer to a quadrant; the shifts are within the 32-bit range of \<open>| 0\<close>.
\<close>

theorem shift_round_trip:
  assumes dx: "\<bar>dx\<bar> < 2147483648" and dy: "\<bar>dy\<bar> < 2147483648"
    and ox0: "\<bar>offsetX g\<bar> \<le> quadrantWidth g" and oy0: "\<bar>offsetY g\<bar> \<le> quadrantHeight g"
    and ox: "\<bar>offsetX g + dx\<bar> \<le> quadrantWidth g" and oy: "\<bar>offsetY g + dy\<bar> \<le> quadrantHeight g"
    and nr: "numRows g \<le> int (length (quadrantRows g))"
    and nc: "numCols g \<le> int (length (quadrantCols g))"
    and cv: "cells_valid g"
  shows "\<exists>st. round_trip dx dy g = Inr (g\<lparr>store := st\<rparr>) \<and>
              map unflag st = map unflag (store g) \<and>
              cell_bounds (g\<lparr>store := st\<rparr>) = cell_bounds g"
proof -
  define ids where "ids = map (ref_id (quadrantRows g)) (all_cells g)"
  define g1 where "g1 = g\<lparr>offsetX := offsetX g + dx, offsetY := offsetY g + dy,
            k_top := k_top g + dy, k_right := k_right g + dx,
            k_bottom := k_bottom g + dy, k_left := k_left g + dx,
            quadrantRows := moved (numRows g) dx dy (quadrantRows g),
            quadrantCols := moved (numCols g) dx dy (quadrantCols g),
            store := fold (upd dx dy) ids (store g)\<rparr>"
  define st where "st = fold (upd (- dx) (- dy)) ids (fold (upd dx dy) ids (store g))"
  have first: "shiftQuadrants dx dy g = Inr g1"
    unfolding g1_def ids_def by (rule shiftQuadrants_still [OF dx dy ox oy nr nc cv])
  have cells1: "all_cells g1 = all_cells g"
    by (simp add: g1_def all_cells_def)
  have r1: "quadrantRows g1 = moved (numRows g) dx dy (quadrantRows g)"
    and c1: "quadrantCols g1 = moved (numCols g) dx dy (quadrantCols g)"
    and s1: "store g1 = fold (upd dx dy) ids (store g)"
    and n1: "numRows g1 = numRows g" "numCols g1 = numCols g"
    by (simp_all add: g1_def)
  have cv1: "cells_valid g1"
    using cv by (simp add: cells_valid_def cells1 r1 s1 ref_in_moved_fun)
  have ids1: "map (ref_id (quadrantRows g1)) (all_cells g1) = ids"
    using cv unfolding cells1 r1 cells_valid_def ids_def by (rule ref_ids_moved)
  have dx': "\<bar>- dx\<bar> < 2147483648" and dy': "\<bar>- dy\<bar> < 2147483648"
    using dx dy by simp_all
  have ox1: "\<bar>offsetX g1 + - dx\<bar> \<le> quadrantWidth g1" and oy1: "\<bar>offsetY g1 + - dy\<bar> \<le> quadrantHeight g1"
    using ox0 oy0 by (simp_all add: g1_def)
  have nr1: "numRows g1 \<le> int (length (quadrantRows g1))" and nc1: "numCols g1 \<le> int (length (quadrantCols g1))"
    using nr nc by (simp_all add: r1 c1 n1)
  have "shiftQuadrants (- dx) (- dy) g1 =
     Inr (g1\<lparr>offsetX := offsetX g1 + - dx, offsetY := offsetY g1 + - dy,
            k_top := k_top g1 + - dy, k_right := k_right g1 + - dx,
            k_bottom := k_bottom g1 + - dy, k_left := k_left g1 + - dx,
            quadrantRows := moved (numRows g1) (- dx) (- dy) (quadrantRows g1),
            quadrantCols := moved (numCols g1) (- dx) (- dy) (quadrantCols g1),
            store := fold (upd (- dx) (- dy)) (map (ref_id (quadrantRows g1)) (all_cells g1)) (store g1)\<rparr>)"
    by (rule shiftQuadrants_still [OF dx' dy' ox1 oy1 nr1 nc1 cv1])
  also have "g1\<lparr>offsetX := offsetX g1 + - dx, offsetY := offsetY g1 + - dy,
            k_top := k_top g1 + - dy, k_right := k_right g1 + - dx,
            k_bottom := k_bottom g1 + - dy, k_left := k_left g1 + - dx,
            quadrantRows := moved (numRows g1) (- dx) (- dy) (quadrantRows g1),
            quadrantCols := moved (numCols g1) (- dx) (- dy) (quadrantCols g1),
            store := fold (upd (- dx) (- dy)) (map (ref_id (quadrantRows g1)) (all_cells g1)) (store g1)\<rparr>
          = g\<lparr>store := st\<rparr>"
    unfolding ids1 unfolding r1 c1 s1 n1 moved_back [OF nr] moved_back [OF nc] st_def
    by (simp add: g1_def)
  finally have second: "shiftQuadrants (- dx) (- dy) g1 = Inr (g\<lparr>store := st\<rparr>)" .
  have trip: "round_trip dx dy g = Inr (g\<lparr>store := st\<rparr>)"
    by (simp add: round_trip_def first second)
  have same: "map unflag st = map unflag (store g)"
    unfolding st_def by (rule round_trip_bounds)
  have "cell_bounds (g\<lparr>store := st\<rparr>) = cell_bounds g"
    by (simp add: cell_bounds_def bounds_of_unflag [OF same])
  with trip same show ?thesis by blast
qed

theorem shift_round_trip_witness:
  "cells_valid (resetQuadrants (keeper 3 3 10 10)) \<and>
   map_sum id cell_bounds (round_trip 5 (- 3) (resetQuadrants (keeper 3 3 10 10)))
     = Inr (cell_bounds (resetQuadrants (keeper 3 3 10 10)))"
proof -
  have h: "\<bar>5 :: int\<bar> < 2147483648" "\<bar>- 3 :: int\<bar> < 2147483648"
    "\<bar>offsetX (resetQuadrants (keeper 3 3 10 10))\<bar> \<le> quadrantWidth (resetQuadrants (keeper 3 3 10 10))"
    "\<bar>offsetY (resetQuadrants (keeper 3 3 10 10))\<bar> \<le> quadrantHeight (resetQuadrants (keeper 3 3 10 10))"
    "\<bar>offsetX (resetQuadrants (keeper 3 3 10 10)) + 5\<bar> \<le> quadrantWidth (resetQuadrants (keeper 3 3 10 10))"
    "\<bar>offsetY (resetQuadrants (keeper 3 3 10 10)) + - 3\<bar> \<le> quadrantHeight (resetQuadrants (keeper 3 3 10 10))"
    "numRows (resetQuadrants (keeper 3 3 10 10)) \<le> int (length (quadrantRows (resetQuadrants (keeper 3 3 10 10))))"
    "numCols (resetQuadrants (keeper 3 3 10 10)) \<le> int (length (quadrantCols (resetQuadrants (keeper 3 3 10 10))))"
    "cells_valid (resetQuadrants (keeper 3 3 10 10))"
    by code_simp+
  from shift_round_trip [OF h] h(9) show ?thesis by auto
qed

text \<open>
  C3, as the spec has it, does not hold for every shift smaller than the grid. On a 3 by 3
  grid of 10 by 10 quadrants, \<open>shiftQuadrants(15, 0)\<close> moves the last column to the
  front, and \<open>shiftQuadrants(-15, 0)\<close> brings the offset to \<open>-10\<close>, which is not below
  \<open>-quadrantWidth\<close>, so no column moves back: every cell ends 10 to the left of where it
  was. With \<open>shiftQuadrants(0, -15)\<close> first, the grid ends with 5 rows.
\<close>

theorem shift_round_trip_counterexample:
  "cell_bounds (resetQuadrants (keeper 3 3 10 10)) =
     [[Some (0, 10, 10, 0), Some (0, 20, 10, 10), Some (0, 30, 10, 20)],
      [Some (10, 10, 20, 0), Some (10, 20, 20, 10), Some (10, 30, 20, 20)],
      [Some (20, 10, 30, 0), Some (20, 20, 30, 10), Some (20, 30, 30, 20)]] \<and>
   map_sum id cell_bounds (round_trip 15 0 (resetQuadrants (keeper 3 3 10 10))) =
     Inr [[Some (0, 0, 10, - 10), Some (0, 10, 10, 0), Some (0, 20, 10, 10)],
          [Some (10, 0, 20, - 10), Some (10, 10, 20, 0), Some (10, 20, 20, 10)],
          [Some (20, 0, 30, - 10), Some (20, 10, 30, 0), Some (20, 20, 30, 10)]] \<and>
   map_sum id numRows (round_trip 0 (- 15) (resetQuadrants (keeper 3 3 10 10))) = Inr 5"
  by code_simp

text \<open>
  C4. \<open>shiftQuadrantRow\<close> takes the first quadrant out of every column but removes the last
  row container, and \<open>shiftQuadrantCol\<close> likewise. On a 2 by 2 grid after
  \<open>resetQuadrants\<close>, where the rows hold the quadrants 0, 1 and 2, 3 and the columns 0, 2
  and 1, 3, one \<open>shiftQuadrantRow\<close> leaves the row 0, 1 and the columns 2 and 3: the
  quadrants 0 and 1 are in a row and in no column. On a 3 by 3 grid,
  \<open>shiftQuadrants(-15, 0)\<close> leaves the quadrants 2, 5, 8 in rows and in no column, and 0,
  3, 6 in columns and in no row.
\<close>

theorem container_removal_failing_input:
  "row_refs (resetQuadrants (keeper 2 2 10 10)) = [Some 0, Some 1, Some 2, Some 3] \<and>
   col_refs (resetQuadrants (keeper 2 2 10 10)) = [Some 0, Some 2, Some 1, Some 3] \<and>
   row_refs (shiftQuadrantRow False (resetQuadrants (keeper 2 2 10 10))) = [Some 0, Some 1] \<and>
   col_refs (shiftQuadrantRow False (resetQuadrants (keeper 2 2 10 10))) = [Some 2, Some 3] \<and>
   map_sum id (\<lambda>g. (row_refs g, col_refs g)) (shiftQuadrants (- 15) 0 (resetQuadrants (keeper 3 3 10 10))) =
     Inr ([Some 1, Some 2, Some 9, Some 4, Some 5, Some 10, Some 7, Some 8, Some 11],
          [Some 0, Some 3, Some 6, Some 1, Some 4, Some 7, Some 9, Some 10, Some 11])"
  by code_simp

subsection \<open>The quadrants of a Thing\<close>

lemma le_div_pos:
  assumes "0 < (w::int)"
  shows "(c \<le> b div w) = (c * w \<le> b)"
proof -
  from assms have "w \<noteq> 0" by simp
  then have "(b + (- c) * w) div w = (- c) + b div w" by (rule div_mult_self1)
  moreover from assms have "(0 \<le> (b + (- c) * w) div w) = (0 \<le> b + (- c) * w)"
    by (rule pos_imp_zdiv_nonneg_iff)
  ultimately have "(0 \<le> (- c) + b div w) = (0 \<le> b + (- c) * w)" by (simp only:)
  then show ?thesis by simp
qed

lemma div_le_pos:
  assumes "0 < (w::int)"
  shows "(a div w \<le> c) = (a < (c + 1) * w)"
proof -
  have "(a div w \<le> c) = (\<not> c + 1 \<le> a div w)" by auto
  also have "\<dots> = (\<not> (c + 1) * w \<le> a)" by (simp only: le_div_pos [OF assms])
  also have "\<dots> = (a < (c + 1) * w)" by auto
  finally show ?thesis .
qed

lemma unflag_changed: "unflag (q\<lparr>q_changed := b\<rparr>) = unflag q"
  by (simp add: unflag_def)

lemma unflag_fields:
  "q_things (unflag q) = q_things q" "q_numthings (unflag q) = q_numthings q"
  by (simp_all add: unflag_def)

lemma mark_loop:
  assumes "list_all (\<lambda>i. case f i of None \<Rightarrow> False | Some q \<Rightarrow> q < length st) js"
  shows "\<exists>st1. fold_throw (\<lambda>i st'. with_quadrant (f i) (\<lambda>q. q\<lparr>q_changed := True\<rparr>) st') js st = Inr st1 \<and>
               map unflag st1 = map unflag st"
  using assms
proof (induction js arbitrary: st)
  case Nil
  then show ?case by simp
next
  case (Cons i js)
  from Cons.prems obtain q where q: "f i = Some q" "q < length st"
    by (auto split: option.splits)
  define sta where "sta = st[q := (st ! q)\<lparr>q_changed := True\<rparr>]"
  have len: "length sta = length st" by (simp add: sta_def)
  have same: "map unflag sta = map unflag st"
    by (simp add: sta_def map_update unflag_changed list_update_same_conv q)
  have step: "with_quadrant (f i) (\<lambda>q. q\<lparr>q_changed := True\<rparr>) st = Inr sta"
    using q by (simp add: with_quadrant_def sta_def)
  from Cons.prems have "list_all (\<lambda>i. case f i of None \<Rightarrow> False | Some q \<Rightarrow> q < length sta) js"
    unfolding len by simp
  from Cons.IH [OF this] obtain st1 where st1:
    "fold_throw (\<lambda>i st'. with_quadrant (f i) (\<lambda>q. q\<lparr>q_changed := True\<rparr>) st') js sta = Inr st1"
    "map unflag st1 = map unflag sta"
    by blast
  from st1(2) same have "map unflag st1 = map unflag st" by (rule trans)
  moreover from st1(1) step
  have "fold_throw (\<lambda>i st'. with_quadrant (f i) (\<lambda>q. q\<lparr>q_changed := True\<rparr>) st') (i # js) st = Inr st1"
    by simp
  ultimately show ?case by blast
qed

lemma markThingQuadrantsChanged_ok:
  assumes "recorded_ok g t"
  shows "\<exists>st1. markThingQuadrantsChanged t (store g) = Inr st1 \<and> map unflag st1 = map unflag (store g)"
  unfolding markThingQuadrantsChanged_def
  by (rule mark_loop) (use assms in \<open>simp add: recorded_ok_def\<close>)

lemma held_after_set: "Some v \<in> set (take (Suc n) (js_array_set arr n v))"
proof (cases "n < length arr")
  case True
  then have "take (Suc n) (arr[n := Some v]) = take n arr @ [Some v]"
    by (simp add: take_Suc_conv_app_nth)
  with True show ?thesis by (simp add: js_array_set_def)
next
  case False
  then show ?thesis by (simp add: js_array_set_def)
qed

lemma recorded_after_set:
  assumes "n \<le> length xs"
  shows "take (Suc n) (js_array_set xs n v) = take n xs @ [Some v]"
proof (cases "n < length xs")
  case True
  then show ?thesis by (simp add: js_array_set_def take_Suc_conv_app_nth)
next
  case False
  with assms have "n = length xs" by simp
  then show ?thesis by (simp add: js_array_set_def)
qed

lemma length_js_array_set: "n < length (js_array_set xs n v)"
  by (simp add: js_array_set_def)

lemma store_okD: "store_ok grp st \<Longrightarrow> i < length st \<Longrightarrow> q_things (st ! i) grp \<noteq> None \<and> q_numthings (st ! i) grp \<noteq> None"
  by (simp add: store_ok_def list_all_length)

lemma setThingInQuadrant_step:
  assumes i: "i < length st" and ok: "store_ok grp st"
    and n: "t_numquads t0 \<le> length (t_quadrants t0)"
  shows "\<exists>t1 st1. setThingInQuadrant (Some i) grp (t0, st) = Inr (t1, st1) \<and>
           t_id t1 = t_id t0 \<and> t_group t1 = t_group t0 \<and> recorded t1 = recorded t0 @ [Some i] \<and>
           t_numquads t1 \<le> length (t_quadrants t1) \<and>
           length st1 = length st \<and> store_ok grp st1 \<and>
           Some (t_id t0) \<in> set (held (st1 ! i) grp) \<and>
           (\<forall>j. j \<noteq> i \<longrightarrow> st1 ! j = st ! j)"
proof -
  from store_okD [OF ok i] obtain arr k where a: "q_things (st ! i) grp = Some arr" "q_numthings (st ! i) grp = Some k"
    by auto
  define t1 where "t1 = t0\<lparr>t_quadrants := js_array_set (t_quadrants t0) (t_numquads t0) i,
                             t_numquads := Suc (t_numquads t0)\<rparr>"
  define q1 where "q1 = (st ! i)\<lparr>q_things := (q_things (st ! i))(grp \<mapsto> js_array_set arr k (t_id t0)),
                                q_numthings := (q_numthings (st ! i))(grp \<mapsto> Suc k),
                                q_changed := (q_changed (st ! i) \<or> t_changed t0)\<rparr>"
  have run: "setThingInQuadrant (Some i) grp (t0, st) = Inr (t1, st[i := q1])"
    using i a by (simp add: setThingInQuadrant_def Let_def t1_def q1_def)
  have id: "t_id t1 = t_id t0" "t_group t1 = t_group t0" by (simp_all add: t1_def)
  have rec: "recorded t1 = recorded t0 @ [Some i]"
    using n by (simp add: recorded_def t1_def recorded_after_set)
  have n1: "t_numquads t1 \<le> length (t_quadrants t1)"
    using length_js_array_set [of "t_numquads t0" "t_quadrants t0" i] by (simp add: t1_def)
  have len: "length (st[i := q1]) = length st" by simp
  have q1ok: "q_things q1 grp \<noteq> None \<and> q_numthings q1 grp \<noteq> None"
    by (simp add: q1_def)
  have ok1: "store_ok grp (st[i := q1])"
    unfolding store_ok_def list_all_length
  proof (intro allI impI)
    fix j assume "j < length (st[i := q1])"
    then have j: "j < length st" by simp
    show "q_things (st[i := q1] ! j) grp \<noteq> None \<and> q_numthings (st[i := q1] ! j) grp \<noteq> None"
    proof (cases "j = i")
      case True
      with i q1ok show ?thesis by simp
    next
      case False
      with store_okD [OF ok j] show ?thesis by simp
    qed
  qed
  have "held q1 grp = take (Suc k) (js_array_set arr k (t_id t0))"
    by (simp add: held_def q1_def)
  then have "Some (t_id t0) \<in> set (held q1 grp)"
    by (simp only: held_after_set)
  with i have has: "Some (t_id t0) \<in> set (held (st[i := q1] ! i) grp)" by simp
  have other: "\<forall>j. j \<noteq> i \<longrightarrow> st[i := q1] ! j = st ! j" by simp
  from run id rec n1 len ok1 has other show ?thesis by blast
qed

lemma set_loop:
  assumes "list_all (ref_in (quadrantRows g) (length st)) cells"
    and "store_ok grp st"
    and "t_numquads t0 \<le> length (t_quadrants t0)"
  shows "\<exists>t' st'. fold_throw (\<lambda>(row, col) ts. case cell_ref g row col of Inl e \<Rightarrow> Inl e
                                               | Inr ref \<Rightarrow> setThingInQuadrant ref grp ts)
                     cells (t0, st) = Inr (t', st') \<and>
           t_id t' = t_id t0 \<and> t_group t' = t_group t0 \<and>
           recorded t' = recorded t0 @ map (\<lambda>rc. Some (ref_id (quadrantRows g) rc)) cells \<and>
           length st' = length st \<and>
           (\<forall>j<length st. (Some (t_id t0) \<in> set (held (st' ! j) grp)) =
               (Some (t_id t0) \<in> set (held (st ! j) grp) \<or> j \<in> ref_id (quadrantRows g) ` set cells))"
    (is "\<exists>t' st'. fold_throw ?F cells (t0, st) = _ \<and> _")
  using assms
proof (induction cells arbitrary: t0 st)
  case Nil
  then show ?case by simp
next
  case (Cons rc cells)
  obtain row col where rc: "rc = (row, col)" by (cases rc)
  from Cons.prems(1) have "ref_in (quadrantRows g) (length st) rc" by simp
  then obtain i where i: "row < length (quadrantRows g)"
    "nth_opt (c_quadrants (quadrantRows g ! row)) col = Some i" "i < length st"
    by (auto simp add: rc ref_in_def split: option.splits)
  have rid: "ref_id (quadrantRows g) rc = i"
    using i by (simp add: rc ref_id_def)
  from setThingInQuadrant_step [OF i(3) Cons.prems(2) Cons.prems(3)]
  obtain t1 st1 where s1: "setThingInQuadrant (Some i) grp (t0, st) = Inr (t1, st1)"
    "t_id t1 = t_id t0" "t_group t1 = t_group t0" "recorded t1 = recorded t0 @ [Some i]"
    "t_numquads t1 \<le> length (t_quadrants t1)" "length st1 = length st" "store_ok grp st1"
    "Some (t_id t0) \<in> set (held (st1 ! i) grp)" "\<forall>j. j \<noteq> i \<longrightarrow> st1 ! j = st ! j"
    by blast
  have step: "?F rc (t0, st) = Inr (t1, st1)"
    using i s1(1) by (simp add: rc cell_ref_def)
  from Cons.prems(1) have rest: "list_all (ref_in (quadrantRows g) (length st1)) cells"
    by (simp add: s1(6))
  from Cons.IH [OF rest s1(7) s1(5)] obtain t' st' where r:
    "fold_throw ?F cells (t1, st1) = Inr (t', st')"
    "t_id t' = t_id t1" "t_group t' = t_group t1"
    "recorded t' = recorded t1 @ map (\<lambda>rc. Some (ref_id (quadrantRows g) rc)) cells"
    "length st' = length st1"
    "\<forall>j<length st1. (Some (t_id t1) \<in> set (held (st' ! j) grp)) =
               (Some (t_id t1) \<in> set (held (st1 ! j) grp) \<or> j \<in> ref_id (quadrantRows g) ` set cells)"
    by blast
  have run: "fold_throw ?F (rc # cells) (t0, st) = Inr (t', st')"
    using step r(1) by simp
  have id: "t_id t' = t_id t0" "t_group t' = t_group t0" using r(2) r(3) s1(2) s1(3) by simp_all
  have rec: "recorded t' = recorded t0 @ map (\<lambda>rc. Some (ref_id (quadrantRows g) rc)) (rc # cells)"
    using r(4) s1(4) rid by simp
  have len: "length st' = length st" using r(5) s1(6) by simp
  have has: "\<forall>j<length st. (Some (t_id t0) \<in> set (held (st' ! j) grp)) =
               (Some (t_id t0) \<in> set (held (st ! j) grp) \<or> j \<in> ref_id (quadrantRows g) ` set (rc # cells))"
  proof (intro allI impI)
    fix j assume j: "j < length st"
    with r(6) s1(2) s1(6) have a: "(Some (t_id t0) \<in> set (held (st' ! j) grp)) =
               (Some (t_id t0) \<in> set (held (st1 ! j) grp) \<or> j \<in> ref_id (quadrantRows g) ` set cells)"
      by simp
    show "(Some (t_id t0) \<in> set (held (st' ! j) grp)) =
               (Some (t_id t0) \<in> set (held (st ! j) grp) \<or> j \<in> ref_id (quadrantRows g) ` set (rc # cells))"
    proof (cases "j = i")
      case True
      with a s1(8) rid show ?thesis by simp
    next
      case False
      with s1(9) have "st1 ! j = st ! j" by simp
      with a False rid show ?thesis by auto
    qed
  qed
  from run id rec len has show ?case by blast
qed

lemma all_cells_iff: "((r, c) \<in> set (all_cells g)) = (int r < numRows g \<and> int c < numCols g)"
  by (auto simp add: all_cells_def)

lemma nat_range:
  assumes "0 \<le> a"
  shows "(r \<in> nat ` {a..b}) = (a \<le> int r \<and> int r \<le> b)"
proof
  assume "r \<in> nat ` {a..b}"
  then obtain x where "a \<le> x" "x \<le> b" "r = nat x" by auto
  with assms show "a \<le> int r \<and> int r \<le> b" by simp
next
  assume "a \<le> int r \<and> int r \<le> b"
  then have "int r \<in> {a..b}" "r = nat (int r)" by simp_all
  then show "r \<in> nat ` {a..b}" by (metis imageI)
qed

lemma thing_cells_iff:
  assumes "findQuadrantRowEnd g t = Some rowEnd"
  shows "((r, c) \<in> set (thing_cells g t)) =
     (findQuadrantRowStart g t \<le> int r \<and> int r \<le> rowEnd \<and>
      findQuadrantColStart g t \<le> int c \<and> int c \<le> findQuadrantColEnd g t)"
proof -
  have "0 \<le> findQuadrantRowStart g t" "0 \<le> findQuadrantColStart g t"
    by (simp_all add: findQuadrantRowStart_def findQuadrantColStart_def)
  then show ?thesis
    by (simp add: thing_cells_def assms nat_range)
qed

text \<open>
  With both keys for the offsets set, or none, the getters give the box of the Thing,
  and the cells of the loops are the cells of the grid that the Thing occupies.
\<close>

lemma getters_adjusted:
  assumes "keyOffsetX g = keyOffsetY g"
  shows "getTop g t = adjusted_top g t" and "getRight g t = adjusted_right g t"
    and "getBottom g t = Some (adjusted_bottom g t)" and "getLeft g t = adjusted_left g t"
  using assms
  by (simp_all add: getTop_def getRight_def getBottom_def getLeft_def
        adjusted_top_def adjusted_right_def adjusted_bottom_def adjusted_left_def)

lemma thing_cells_occupies:
  assumes w: "0 < quadrantWidth g" and h: "0 < quadrantHeight g"
    and keys: "keyOffsetX g = keyOffsetY g"
    and inside: "int r < numRows g" "int c < numCols g"
    and qb: "q_left q = k_left g + int c * quadrantWidth g"
      "q_right q = q_left q + quadrantWidth g"
      "q_top q = k_top g + int r * quadrantHeight g"
      "q_bottom q = q_top q + quadrantHeight g"
  shows "occupies g t q = ((r, c) \<in> set (thing_cells g t))"
proof -
  note gt = getters_adjusted [OF keys, of t]
  define rowEnd where "rowEnd = min ((adjusted_bottom g t - k_top g) div quadrantHeight g) (numRows g - 1)"
  have end_row: "findQuadrantRowEnd g t = Some rowEnd"
    by (simp add: findQuadrantRowEnd_def gt rowEnd_def)
  have rs: "(findQuadrantRowStart g t \<le> int r) = (adjusted_top g t < q_bottom q)"
    using div_le_pos [OF h, of "adjusted_top g t - k_top g" "int r"] qb
    by (simp add: findQuadrantRowStart_def gt algebra_simps)
  have re: "(int r \<le> rowEnd) = (q_top q \<le> adjusted_bottom g t)"
    using le_div_pos [OF h, of "int r" "adjusted_bottom g t - k_top g"] qb inside
    by (simp add: rowEnd_def algebra_simps)
  have cs: "(findQuadrantColStart g t \<le> int c) = (adjusted_left g t < q_right q)"
    using div_le_pos [OF w, of "adjusted_left g t - k_left g" "int c"] qb
    by (simp add: findQuadrantColStart_def gt algebra_simps)
  have ce: "(int c \<le> findQuadrantColEnd g t) = (q_left q \<le> adjusted_right g t)"
    using le_div_pos [OF w, of "int c" "adjusted_right g t - k_left g"] qb inside
    by (simp add: findQuadrantColEnd_def gt algebra_simps)
  show ?thesis
    unfolding thing_cells_iff [OF end_row] rs re cs ce occupies_def by blast
qed

lemma thing_cells_inside:
  assumes "(r, c) \<in> set (thing_cells g t)"
  shows "(r, c) \<in> set (all_cells g)"
proof (cases "findQuadrantRowEnd g t")
  case None
  with assms show ?thesis by (simp add: thing_cells_def)
next
  case (Some rowEnd)
  then have "rowEnd \<le> numRows g - 1"
    by (auto simp add: findQuadrantRowEnd_def)
  with assms show ?thesis
    unfolding thing_cells_iff [OF Some] all_cells_iff
    by (simp add: findQuadrantColEnd_def)
qed

lemma store_ok_unflag: "store_ok grp st = list_all (\<lambda>q. q_things q grp \<noteq> None \<and> q_numthings q grp \<noteq> None) (map unflag st)"
  by (simp add: store_ok_def list.pred_map o_def unflag_fields)

lemma held_unflag: "held (unflag q) grp = held q grp"
  by (simp add: held_def unflag_fields)

lemma held_same:
  assumes "map unflag st1 = map unflag st" and "j < length st"
  shows "held (st1 ! j) grp = held (st ! j) grp"
proof -
  from assms(1) have len: "length st1 = length st" by (rule map_eq_imp_length_eq)
  with assms have "unflag (st1 ! j) = unflag (st ! j)" by (metis nth_map)
  then have "held (unflag (st1 ! j)) grp = held (unflag (st ! j)) grp" by simp
  then show ?thesis by (simp only: held_unflag)
qed

lemma quadrants_where_set:
  assumes "\<forall>rc\<in>set (all_cells g). cell_quadrant g rc = Some (f rc) \<and> f rc < length (store g)"
  shows "set (quadrants_where P g) = (\<lambda>rc. Some (f rc)) ` {rc \<in> set (all_cells g). P (store g ! f rc)}"
proof (intro set_eqI iffI)
  fix x assume "x \<in> set (quadrants_where P g)"
  then obtain rc where rc: "rc \<in> set (all_cells g)" "x = cell_quadrant g rc"
    and p: "case x of None \<Rightarrow> False | Some i \<Rightarrow> i < length (store g) \<and> P (store g ! i)"
    by (auto simp add: quadrants_where_def)
  from rc assms have x: "x = Some (f rc)" by simp
  with p have "P (store g ! f rc)" by simp
  with rc(1) x show "x \<in> (\<lambda>rc. Some (f rc)) ` {rc \<in> set (all_cells g). P (store g ! f rc)}" by blast
next
  fix x assume "x \<in> (\<lambda>rc. Some (f rc)) ` {rc \<in> set (all_cells g). P (store g ! f rc)}"
  then obtain rc where rc: "rc \<in> set (all_cells g)" "P (store g ! f rc)" "x = Some (f rc)" by blast
  with assms have "cell_quadrant g rc = x" "f rc < length (store g)" by simp_all
  with rc show "x \<in> set (quadrants_where P g)"
    by (auto simp add: quadrants_where_def image_iff intro!: bexI [of _ rc])
qed

text \<open>
  C1, as the code has it. On a grid whose cells are where \<open>resetQuadrants\<close> puts them,
  of a QuadsKeepr with both keys for the offsets or with none, with numbers below
  \<open>2 ^ 51\<close> in size,
  for a Thing whose earlier quadrants exist and that no quadrant of the grid holds yet
  (\<open>determineAllQuadrants\<close> empties the group in every quadrant before it places the
  Things), \<open>determineThingQuadrants\<close> returns, the quadrants the Thing records are the
  quadrants of the grid that the Thing occupies, and they are the quadrants that hold the
  Thing. A quadrant is occupied when, taken without its right and bottom edge, it meets the
  box of the Thing with its offsets, edges included. On the 3 by 3 grid of 10 by 10 quadrants the Thing
  at top 5, left 5, right 15, bottom 15 is in the quadrants 0, 1, 3, 4, the cells of the
  rows 0, 1 and columns 0, 1.
\<close>

theorem determineThingQuadrants_cells:
  assumes ok: "grid_ok g (t_group t)" and keys: "keyOffsetX g = keyOffsetY g"
    and rec: "recorded_ok g t"
    and fresh: "quadrants_where (holds t) g = []"
    and exact: "exact_positions g t"
  shows "\<exists>g' t'. determineThingQuadrants g t = Inr (g', t') \<and>
           set (recorded t') = set (quadrants_where (occupies g t) g) \<and>
           set (quadrants_where (holds t') g') = set (recorded t')"
proof -
  define rid where "rid = ref_id (quadrantRows g)"
  from ok have w: "0 < quadrantWidth g" and h: "0 < quadrantHeight g"
    and cells: "\<forall>rc\<in>set (all_cells g). cell_ok g rc"
    and things: "store_ok (t_group t) (store g)"
    by (simp_all add: grid_ok_def store_ok_def list_all_iff)
  have cell: "cell_quadrant g rc = Some (rid rc) \<and> rid rc < length (store g) \<and>
              occupies g t (store g ! rid rc) = (rc \<in> set (thing_cells g t)) \<and>
              ref_in (quadrantRows g) (length (store g)) rc"
    if rc: "rc \<in> set (all_cells g)" for rc
  proof -
    obtain r c where p: "rc = (r, c)" by (cases rc)
    from cells rc have c_ok: "cell_ok g rc" by blast
    then obtain i where i: "cell_quadrant g rc = Some i" "i < length (store g)"
      "q_left (store g ! i) = k_left g + int c * quadrantWidth g"
      "q_right (store g ! i) = q_left (store g ! i) + quadrantWidth g"
      "q_top (store g ! i) = k_top g + int r * quadrantHeight g"
      "q_bottom (store g ! i) = q_top (store g ! i) + quadrantHeight g"
      by (auto simp add: cell_ok_def p split: option.splits)
    from i(1) have row: "r < length (quadrantRows g)"
      and ref: "nth_opt (c_quadrants (quadrantRows g ! r)) c = Some i"
      by (simp_all add: cell_quadrant_def p split: if_splits)
    then have id: "rid rc = i" by (simp add: rid_def ref_id_def p)
    from rc have inside: "int r < numRows g" "int c < numCols g"
      by (simp_all add: p all_cells_iff)
    have "occupies g t (store g ! i) = ((r, c) \<in> set (thing_cells g t))"
      by (rule thing_cells_occupies [OF w h keys inside i(3-6)])
    moreover have "ref_in (quadrantRows g) (length (store g)) rc"
      using row ref i(2) by (simp add: ref_in_def p)
    ultimately show ?thesis using i(1,2) id p by simp
  qed
  have sub: "set (thing_cells g t) \<subseteq> set (all_cells g)"
    using thing_cells_inside by auto
  obtain st1 where st1: "(if t_changed t then markThingQuadrantsChanged t (store g) else Inr (store g)) = Inr st1"
    "map unflag st1 = map unflag (store g)"
    using markThingQuadrantsChanged_ok [OF rec] by (cases "t_changed t") auto
  from st1(2) have len1: "length st1 = length (store g)" by (rule map_eq_imp_length_eq)
  from things st1(2) have ok1: "store_ok (t_group t) st1" by (simp only: store_ok_unflag)
  have valid: "list_all (ref_in (quadrantRows g) (length st1)) (thing_cells g t)"
    unfolding list_all_iff len1 using cell sub by blast
  have zero: "t_numquads (t\<lparr>t_numquads := 0\<rparr>) \<le> length (t_quadrants (t\<lparr>t_numquads := 0\<rparr>))" by simp
  from set_loop [OF valid ok1 zero] obtain t' st2 where loop:
    "fold_throw (\<lambda>(row, col) ts. case cell_ref g row col of Inl e \<Rightarrow> Inl e
                                   | Inr ref \<Rightarrow> setThingInQuadrant ref (t_group t) ts)
        (thing_cells g t) (t\<lparr>t_numquads := 0\<rparr>, st1) = Inr (t', st2)"
    and id: "t_id t' = t_id t" and gr: "t_group t' = t_group t"
    and rec': "recorded t' = map (\<lambda>rc. Some (rid rc)) (thing_cells g t)"
    and len2: "length st2 = length st1"
    and has: "\<forall>j<length st1. (Some (t_id t) \<in> set (held (st2 ! j) (t_group t))) =
               (Some (t_id t) \<in> set (held (st1 ! j) (t_group t)) \<or> j \<in> rid ` set (thing_cells g t))"
    by (auto simp add: recorded_def rid_def)
  define g' where "g' = g\<lparr>store := st2\<rparr>"
  define t'' where "t'' = t'\<lparr>t_changed := False\<rparr>"
  have run: "determineThingQuadrants g t = Inr (g', t'')"
    using st1(1) loop by (simp add: determineThingQuadrants_def g'_def t''_def)
  have rec'': "recorded t'' = map (\<lambda>rc. Some (rid rc)) (thing_cells g t)"
    using rec' by (simp add: recorded_def t''_def)
  have cq: "\<forall>rc\<in>set (all_cells g). cell_quadrant g rc = Some (rid rc) \<and> rid rc < length (store g)"
    using cell by blast
  have "set (quadrants_where (occupies g t) g) = (\<lambda>rc. Some (rid rc)) ` {rc \<in> set (all_cells g). occupies g t (store g ! rid rc)}"
    by (rule quadrants_where_set [OF cq])
  also have "{rc \<in> set (all_cells g). occupies g t (store g ! rid rc)} = set (thing_cells g t)"
    using cell sub by blast
  finally have first: "set (recorded t'') = set (quadrants_where (occupies g t) g)"
    by (simp add: rec'')
  have none: "\<not> holds t (store g ! rid rc)" if "rc \<in> set (all_cells g)" for rc
  proof
    assume "holds t (store g ! rid rc)"
    with that have "Some (rid rc) \<in> (\<lambda>rc. Some (rid rc)) ` {rc \<in> set (all_cells g). holds t (store g ! rid rc)}"
      by blast
    then have "Some (rid rc) \<in> set (quadrants_where (holds t) g)"
      by (simp only: quadrants_where_set [OF cq])
    with fresh show False by simp
  qed
  have cells': "all_cells g' = all_cells g" and store': "store g' = st2"
    by (simp_all add: g'_def all_cells_def)
  have cqeq: "cell_quadrant g' = cell_quadrant g"
    by (rule ext) (simp add: cell_quadrant_def g'_def)
  have cq': "\<forall>rc\<in>set (all_cells g'). cell_quadrant g' rc = Some (rid rc) \<and> rid rc < length (store g')"
    using cq by (simp only: cells' store' len2 len1 cqeq)
  have holds': "holds t'' (st2 ! rid rc) = (rid rc \<in> rid ` set (thing_cells g t))"
    if rc: "rc \<in> set (all_cells g)" for rc
  proof -
    from cell [OF rc] have j: "rid rc < length st1" by (simp add: len1)
    have "holds t'' (st2 ! rid rc) = (Some (t_id t) \<in> set (held (st2 ! rid rc) (t_group t)))"
      by (simp add: holds_def t''_def id gr)
    also from has j have "\<dots> = (Some (t_id t) \<in> set (held (st1 ! rid rc) (t_group t)) \<or> rid rc \<in> rid ` set (thing_cells g t))"
      by blast
    also have "held (st1 ! rid rc) (t_group t) = held (store g ! rid rc) (t_group t)"
      by (rule held_same [OF st1(2)]) (use cell [OF rc] in simp)
    also have "(Some (t_id t) \<in> set (held (store g ! rid rc) (t_group t))) = False"
      using none [OF rc] by (simp add: holds_def)
    finally show ?thesis by simp
  qed
  have "set (quadrants_where (holds t'') g') = (\<lambda>rc. Some (rid rc)) ` {rc \<in> set (all_cells g'). holds t'' (store g' ! rid rc)}"
    by (rule quadrants_where_set [OF cq'])
  also have "{rc \<in> set (all_cells g'). holds t'' (store g' ! rid rc)} = {rc \<in> set (all_cells g). rid rc \<in> rid ` set (thing_cells g t)}"
    unfolding cells' store' using holds' by blast
  also have "(\<lambda>rc. Some (rid rc)) ` {rc \<in> set (all_cells g). rid rc \<in> rid ` set (thing_cells g t)} = (\<lambda>rc. Some (rid rc)) ` set (thing_cells g t)"
  proof (intro set_eqI iffI)
    fix x assume "x \<in> (\<lambda>rc. Some (rid rc)) ` {rc \<in> set (all_cells g). rid rc \<in> rid ` set (thing_cells g t)}"
    then obtain rc where "x = Some (rid rc)" "rid rc \<in> rid ` set (thing_cells g t)" by blast
    then show "x \<in> (\<lambda>rc. Some (rid rc)) ` set (thing_cells g t)" by auto
  next
    fix x assume "x \<in> (\<lambda>rc. Some (rid rc)) ` set (thing_cells g t)"
    with sub show "x \<in> (\<lambda>rc. Some (rid rc)) ` {rc \<in> set (all_cells g). rid rc \<in> rid ` set (thing_cells g t)}"
      by blast
  qed
  finally have second: "set (quadrants_where (holds t'') g') = set (recorded t'')"
    by (simp add: rec'')
  from run first second show ?thesis by blast
qed

theorem determineThingQuadrants_cells_witness:
  "grid_ok (resetQuadrants (keeper 3 3 10 10)) (t_group (box 5 15 15 5)) \<and>
   keyOffsetX (resetQuadrants (keeper 3 3 10 10)) = keyOffsetY (resetQuadrants (keeper 3 3 10 10)) \<and>
   recorded_ok (resetQuadrants (keeper 3 3 10 10)) (box 5 15 15 5) \<and>
   quadrants_where (holds (box 5 15 15 5)) (resetQuadrants (keeper 3 3 10 10)) = [] \<and>
   exact_positions (resetQuadrants (keeper 3 3 10 10)) (box 5 15 15 5) \<and>
   (\<exists>g' t'. determineThingQuadrants (resetQuadrants (keeper 3 3 10 10)) (box 5 15 15 5) = Inr (g', t') \<and>
            set (recorded t') = {Some 0, Some 1, Some 3, Some 4} \<and>
            set (quadrants_where (holds t') g') = {Some 0, Some 1, Some 3, Some 4})"
proof -
  have h: "grid_ok (resetQuadrants (keeper 3 3 10 10)) (t_group (box 5 15 15 5))"
    "keyOffsetX (resetQuadrants (keeper 3 3 10 10)) = keyOffsetY (resetQuadrants (keeper 3 3 10 10))"
    "recorded_ok (resetQuadrants (keeper 3 3 10 10)) (box 5 15 15 5)"
    "quadrants_where (holds (box 5 15 15 5)) (resetQuadrants (keeper 3 3 10 10)) = []"
    "exact_positions (resetQuadrants (keeper 3 3 10 10)) (box 5 15 15 5)"
    by code_simp+
  have "quadrants_where (occupies (resetQuadrants (keeper 3 3 10 10)) (box 5 15 15 5)) (resetQuadrants (keeper 3 3 10 10))
        = [Some 0, Some 1, Some 3, Some 4]"
    by code_simp
  with determineThingQuadrants_cells [OF h] h show ?thesis by auto
qed

text \<open>
  C1, as the spec has it, fails at the edges of the quadrants and for a Thing that is
  placed twice. The Thing at top 10, bottom 15 is recorded in the row 1 only, while the
  quadrants of the row 0 end at 10 and so touch it. The Thing at right 10, bottom 10 is
  recorded in four quadrants, while it overlaps the quadrant 0 only. After a second call
  for the Thing moved into the quadrant 8, the quadrants 0, 1, 3, 4 still hold it.
\<close>

theorem determineThingQuadrants_counterexample:
  "placed (resetQuadrants (keeper 3 3 10 10)) (box 10 15 15 5) = Inr ([Some 3, Some 4], [Some 3, Some 4]) \<and>
   quadrants_where (touches (resetQuadrants (keeper 3 3 10 10)) (box 10 15 15 5)) (resetQuadrants (keeper 3 3 10 10))
     = [Some 0, Some 1, Some 3, Some 4] \<and>
   placed (resetQuadrants (keeper 3 3 10 10)) (box 5 10 10 5)
     = Inr ([Some 0, Some 1, Some 3, Some 4], [Some 0, Some 1, Some 3, Some 4]) \<and>
   quadrants_where (overlaps (resetQuadrants (keeper 3 3 10 10)) (box 5 10 10 5)) (resetQuadrants (keeper 3 3 10 10))
     = [Some 0] \<and>
   placed_again (resetQuadrants (keeper 3 3 10 10)) (box 5 15 15 5) 25 28 28 25
     = Inr ([Some 8], [Some 0, Some 1, Some 3, Some 4, Some 8])"
  by code_simp

text \<open>
  The keys of the offsets. The box of the Thing at top 12, bottom 18, left 12, right 18
  with the vertical offset 4 reaches from 8 to 22 and occupies the quadrants 1, 4 and 7.
  With both keys set these are recorded. \<open>getBottom\<close> tests \<open>keyOffsetX\<close> where it
  should test \<open>keyOffsetY\<close>: with \<open>keyOffsetY\<close> alone the bottom is taken without the
  offset and the quadrant 7 is missed, and with \<open>keyOffsetX\<close> alone the bottom is
  \<open>NaN\<close> and no quadrant is recorded.
\<close>

lemma getBottom_offset_keys:
  "placed (keyed True True (resetQuadrants (keeper 3 3 10 10))) offset_box
     = Inr ([Some 1, Some 4, Some 7], [Some 1, Some 4, Some 7]) \<and>
   quadrants_where (occupies (keyed True True (resetQuadrants (keeper 3 3 10 10))) offset_box)
       (keyed True True (resetQuadrants (keeper 3 3 10 10)))
     = [Some 1, Some 4, Some 7] \<and>
   placed (keyed False True (resetQuadrants (keeper 3 3 10 10))) offset_box
     = Inr ([Some 1, Some 4], [Some 1, Some 4]) \<and>
   quadrants_where (occupies (keyed False True (resetQuadrants (keeper 3 3 10 10))) offset_box)
       (keyed False True (resetQuadrants (keeper 3 3 10 10)))
     = [Some 1, Some 4, Some 7] \<and>
   placed (keyed True False (resetQuadrants (keeper 3 3 10 10))) offset_box = Inr ([], [])"
  by code_simp

subsection \<open>Drawing only the quadrants that are due\<close>

lemma fold_throw_append:
  "fold_throw f (xs @ ys) s = (case fold_throw f xs s of Inl e \<Rightarrow> Inl e | Inr s' \<Rightarrow> fold_throw f ys s')"
  by (induction xs arbitrary: s) (simp_all split: sum.splits)

lemma fold_throw_concat:
  "fold_throw (\<lambda>x. fold_throw f (g x)) xs s = fold_throw f (concat (map g xs)) s"
  by (induction xs arbitrary: s) (simp_all add: fold_throw_append split: sum.splits)

lemma refillQuadrant_result:
  "refillQuadrant d i q = Inr (ops, q') \<Longrightarrow> q' = q\<lparr>q_changed := False\<rparr>"
  by (auto simp add: refillQuadrant_def and_then_def Let_def split: sum.splits)

lemma due_calls [simp]: "due (d\<lparr>dr_calls := c\<rparr>) q = due d q"
  by (simp add: due_def)

lemma due_frames [simp]: "due (d\<lparr>dr_framesDrawn := n\<rparr>) q = due d q"
  by (simp add: due_def)

lemma due_unchanged [simp]: "\<not> due d (q\<lparr>q_changed := False\<rparr>)"
  by (simp add: due_def)

lemma refill_step_skipped: "skipped d st ref \<Longrightarrow> refill_step ref (d, st) = Inr (d, st)"
  by (cases ref) (simp_all add: skipped_def refill_step_def)

lemma refill_step_keeps:
  assumes "refill_step r (d, st) = Inr (d', st')" and "skipped d st ref"
  shows "skipped d' st' ref"
proof (cases r)
  case None
  with assms(1) show ?thesis by (simp add: refill_step_def)
next
  case (Some i)
  from assms(2) obtain j where j: "ref = Some j" "j < length st" "\<not> due d (st ! j)"
    by (cases ref) (simp_all add: skipped_def)
  show ?thesis
  proof (cases "due d (st ! i)")
    case False
    with assms(1) Some have "d' = d" "st' = st"
      by (simp_all add: refill_step_def split: if_splits)
    with assms(2) show ?thesis by simp
  next
    case True
    with assms(1) Some obtain ops q where r: "i < length st" "refillQuadrant d i (st ! i) = Inr (ops, q)"
      "d' = d\<lparr>dr_calls := dr_calls d @ ops @ [DrawImage MainCanvas (QuadrantCanvas i) (q_left q) (q_top q)]\<rparr>"
      "st' = st[i := q]"
      by (auto simp add: refill_step_def and_then_def split: if_splits sum.splits)
    from refillQuadrant_result [OF r(2)] have q: "q = (st ! i)\<lparr>q_changed := False\<rparr>" .
    have "\<not> due d' (st' ! j)"
    proof (cases "j = i")
      case True
      with r j q show ?thesis by simp
    next
      case False
      with r j show ?thesis by simp
    qed
    with j r(4) show ?thesis by (simp add: skipped_def)
  qed
qed

lemma refillQuadrants_filter:
  assumes "\<forall>ref\<in>set refs. \<not> F ref \<longrightarrow> skipped d st ref"
  shows "fold_throw refill_step refs (d, st) = fold_throw refill_step (filter F refs) (d, st)"
  using assms
proof (induction refs arbitrary: d st)
  case Nil
  then show ?case by simp
next
  case (Cons r refs)
  show ?case
  proof (cases "F r")
    case False
    with Cons.prems have "skipped d st r" by simp
    then have "refill_step r (d, st) = Inr (d, st)" by (rule refill_step_skipped)
    moreover from Cons.prems have "fold_throw refill_step refs (d, st) = fold_throw refill_step (filter F refs) (d, st)"
      by (intro Cons.IH) simp
    ultimately show ?thesis using False by simp
  next
    case True
    show ?thesis
    proof (cases "refill_step r (d, st)")
      case (Inl e)
      with True show ?thesis by simp
    next
      case (Inr ds)
      obtain d' st' where ds: "ds = (d', st')" by (cases ds)
      have "\<forall>ref\<in>set refs. \<not> F ref \<longrightarrow> skipped d' st' ref"
        using Cons.prems refill_step_keeps [OF Inr [unfolded ds]] by simp
      then have "fold_throw refill_step refs (d', st') = fold_throw refill_step (filter F refs) (d', st')"
        by (rule Cons.IH)
      with True Inr ds show ?thesis by simp
    qed
  qed
qed

lemma concat_only_due:
  "concat (map c_quadrants (map (only_due d st) groups))
   = filter (\<lambda>ref. \<not> skipped d st ref) (concat (map c_quadrants groups))"
  by (induction groups) (simp_all add: only_due_def)

lemma skipped_frames [simp]: "skipped (d\<lparr>dr_framesDrawn := n\<rparr>) st = skipped d st"
  by (rule ext) (simp add: skipped_def split: option.splits)

text \<open>
  C5. A frame drawn with \<open>refillQuadrantGroups\<close> is the frame drawn for the quadrants that
  are due alone, those that have changed and lie on the screen: every other quadrant of
  the groups is passed over, and the renderer and the quadrants end the same, error or
  not. When no quadrant of the groups is due, as when the \<open>changed\<close> flag of every
  quadrant is false, the frame returns with no call made on any context, so the main canvas
  is as it was, and with the quadrants as they were; only \<open>framesDrawn\<close> is one more.
\<close>

theorem refill_only_due:
  "refillQuadrantGroups groups (d, st) = refillQuadrantGroups (map (only_due d st) groups) (d, st) \<and>
   (list_all (skipped d st) (concat (map c_quadrants groups)) \<longrightarrow>
      refillQuadrantGroups groups (d, st) = Inr (d\<lparr>dr_framesDrawn := dr_framesDrawn d + 1\<rparr>, st))"
proof
  define d1 where "d1 = d\<lparr>dr_framesDrawn := dr_framesDrawn d + 1\<rparr>"
  have sk: "skipped d1 st = skipped d st" by (simp add: d1_def)
  have flat: "fold_throw (\<lambda>c. refillQuadrants (c_quadrants c)) gs (d1, st)
              = fold_throw refill_step (concat (map c_quadrants gs)) (d1, st)" for gs
    unfolding refillQuadrants_def by (rule fold_throw_concat)
  have "fold_throw refill_step (concat (map c_quadrants groups)) (d1, st)
        = fold_throw refill_step (filter (\<lambda>ref. \<not> skipped d st ref) (concat (map c_quadrants groups))) (d1, st)"
    by (rule refillQuadrants_filter) (simp add: sk)
  then have loops: "fold_throw (\<lambda>c. refillQuadrants (c_quadrants c)) groups (d1, st)
        = fold_throw (\<lambda>c. refillQuadrants (c_quadrants c)) (map (only_due d st) groups) (d1, st)"
    by (simp only: flat concat_only_due)
  then show "refillQuadrantGroups groups (d, st) = refillQuadrantGroups (map (only_due d st) groups) (d, st)"
    by (simp add: refillQuadrantGroups_def Let_def d1_def)
  show "list_all (skipped d st) (concat (map c_quadrants groups)) \<longrightarrow>
      refillQuadrantGroups groups (d, st) = Inr (d\<lparr>dr_framesDrawn := dr_framesDrawn d + 1\<rparr>, st)"
  proof
    assume clean: "list_all (skipped d st) (concat (map c_quadrants groups))"
    then have "filter (\<lambda>ref. \<not> skipped d st ref) (concat (map c_quadrants groups)) = []"
      by (simp add: list_all_iff filter_empty_conv)
    then have "fold_throw (\<lambda>c. refillQuadrants (c_quadrants c)) (map (only_due d st) groups) (d1, st) = Inr (d1, st)"
      by (simp only: flat concat_only_due fold_throw.simps)
    with loops show "refillQuadrantGroups groups (d, st) = Inr (d\<lparr>dr_framesDrawn := dr_framesDrawn d + 1\<rparr>, st)"
      by (simp add: refillQuadrantGroups_def Let_def d1_def)
  qed
qed

theorem refill_only_due_witness:
  "list_all (skipped screen_drawr (map unflag (store (resetQuadrants (keeper 3 3 10 10)))))
     (concat (map c_quadrants (quadrantRows (resetQuadrants (keeper 3 3 10 10))))) \<and>
   frame_calls (refillQuadrantGroups (quadrantRows (resetQuadrants (keeper 3 3 10 10)))
                  (screen_drawr, map unflag (store (resetQuadrants (keeper 3 3 10 10)))))
     = Inr (1, [], [False, False, False, False, False, False, False, False, False])"
proof -
  have h: "list_all (skipped screen_drawr (map unflag (store (resetQuadrants (keeper 3 3 10 10)))))
     (concat (map c_quadrants (quadrantRows (resetQuadrants (keeper 3 3 10 10)))))"
    by code_simp
  have st: "map q_changed (map unflag (store (resetQuadrants (keeper 3 3 10 10))))
            = [False, False, False, False, False, False, False, False, False]"
    by code_simp
  from refill_only_due [of "quadrantRows (resetQuadrants (keeper 3 3 10 10))" screen_drawr
                           "map unflag (store (resetQuadrants (keeper 3 3 10 10)))"] h
  have "refillQuadrantGroups (quadrantRows (resetQuadrants (keeper 3 3 10 10)))
                  (screen_drawr, map unflag (store (resetQuadrants (keeper 3 3 10 10))))
        = Inr (screen_drawr\<lparr>dr_framesDrawn := dr_framesDrawn screen_drawr + 1\<rparr>,
               map unflag (store (resetQuadrants (keeper 3 3 10 10))))"
    by blast
  with h st show ?thesis
    by (simp add: frame_calls_def screen_drawr_def)
qed

text \<open>
  The same frame on the grid where the Thing at top 5, left 5, right 15, bottom 15 has been
  placed and every quadrant is new, hence changed: the four quadrants on the 20 by 20
  screen are refilled and drawn, the five others are left as changed.
\<close>

theorem refill_draws_due_quadrants:
  "(case determineThingQuadrants (resetQuadrants (keeper 3 3 10 10)) (box 5 15 15 5) of
      Inl e \<Rightarrow> Inl e
    | Inr (g, t) \<Rightarrow> frame_calls (refillQuadrantGroups (quadrantRows g) (screen_drawr, store g)))
   = Inr (1,
          [DrawImageFrom (QuadrantCanvas 0) BackgroundCanvas 0 0 10 10 0 0 10 10,
           DrawImageSized (QuadrantCanvas 0) (ThingCanvas 7) 5 5 10 10,
           DrawImage MainCanvas (QuadrantCanvas 0) 0 0,
           DrawImageFrom (QuadrantCanvas 1) BackgroundCanvas 10 0 10 10 0 0 10 10,
           DrawImageSized (QuadrantCanvas 1) (ThingCanvas 7) (- 5) 5 10 10,
           DrawImage MainCanvas (QuadrantCanvas 1) 10 0,
           DrawImageFrom (QuadrantCanvas 3) BackgroundCanvas 0 10 10 10 0 0 10 10,
           DrawImageSized (QuadrantCanvas 3) (ThingCanvas 7) 5 (- 5) 10 10,
           DrawImage MainCanvas (QuadrantCanvas 3) 0 10,
           DrawImageFrom (QuadrantCanvas 4) BackgroundCanvas 10 10 10 10 0 0 10 10,
           DrawImageSized (QuadrantCanvas 4) (ThingCanvas 7) (- 5) (- 5) 10 10,
           DrawImage MainCanvas (QuadrantCanvas 4) 10 10],
          [False, False, True, False, False, True, True, True, True])"
  by code_simp

end
